theory Spec2Isabelle
  imports Main "HOL-Library.Log_Nat" "HOL-Library.AList"
begin

section \<open>Values, errors and the host environment\<close>

text \<open>
  The listener (\<^verbatim>\<open>tools/progress-listener.py\<close>) renders events decoded by
  \<^verbatim>\<open>json.loads\<close>.  A decoded value is \<^verbatim>\<open>None\<close>, a bool, an unbounded int, a
  float, a str, a list or a dict with string keys.  A float is represented by its exact
  rational value (signed zero, infinities and NaN are not represented).  A str is
  represented by the bytes of its UTF-8 encoding, so the arrow of the source's literals
  is three bytes.
\<close>

datatype pyval =
    PNone
  | PBool bool
  | PInt int
  | PFloat rat
  | PStr string
  | PList "pyval list"
  | PDict "(string \<times> pyval) list"

datatype py_error = TypeError | OverflowError | AttributeError | HostError

text \<open>Truth value testing, as in \<^verbatim>\<open>if x:\<close>.\<close>

fun truthy :: "pyval \<Rightarrow> bool" where
  "truthy PNone = False"
| "truthy (PBool b) = b"
| "truthy (PInt i) = (i \<noteq> 0)"
| "truthy (PFloat r) = (r \<noteq> 0)"
| "truthy (PStr s) = (s \<noteq> [])"
| "truthy (PList xs) = (xs \<noteq> [])"
| "truthy (PDict kvs) = (kvs \<noteq> [])"

subsection \<open>Decimal rendering of integers\<close>

text \<open>The decimal digits of a non-negative int, most significant first.\<close>

definition digit_char :: "int \<Rightarrow> char" where
  "digit_char d = char_of (48 + d)"

function show_dec :: "int \<Rightarrow> string" where
  "show_dec n = (if n < 10 then [digit_char n] else show_dec (n div 10) @ [digit_char (n mod 10)])"
  by pat_completeness auto
termination
  by (relation "measure nat") auto

declare show_dec.simps [simp del]

text \<open>\<^verbatim>\<open>str(i)\<close> for an int.\<close>

definition show_int :: "int \<Rightarrow> string" where
  "show_int i = (if i < 0 then CHR ''-'' # show_dec (- i) else show_dec i)"

subsection \<open>True division and one-decimal formatting of floats\<close>

text \<open>
  \<^verbatim>\<open>a / b\<close> on ints is the IEEE-754 double nearest to the exact quotient (ties to
  even), and raises \<^verbatim>\<open>OverflowError\<close> when that double would not be finite.  A
  double is written here as a pair \<open>(m, e)\<close> standing for \<open>m * 2 ^ e\<close>.
\<close>

type_synonym dbl = "int \<times> int"

definition dbl_val :: "dbl \<Rightarrow> rat" where
  "dbl_val d = of_int (fst d) * 2 powi (snd d)"

text \<open>\<open>a / b\<close> for \<open>0 < b\<close>, rounded to the nearest integer, ties to even.\<close>

definition round_half_even_div :: "int \<Rightarrow> int \<Rightarrow> int" where
  "round_half_even_div a b =
     (let q = a div b; r = a mod b
      in if 2 * r < b then q else if b < 2 * r then q + 1 else if even q then q else q + 1)"

text \<open>\<open>2 ^ d \<le> a / b\<close>, for \<open>0 < a\<close> and \<open>0 < b\<close>.\<close>

definition pow2_le_frac :: "int \<Rightarrow> int \<Rightarrow> int \<Rightarrow> bool" where
  "pow2_le_frac d a b = (if 0 \<le> d then b * 2 ^ nat d \<le> a else b \<le> a * 2 ^ nat (- d))"

text \<open>The integer part of the binary logarithm of \<open>a / b\<close>, for \<open>0 < a\<close> and \<open>0 < b\<close>.\<close>

definition ilog2_frac :: "int \<Rightarrow> int \<Rightarrow> int" where
  "ilog2_frac a b =
     (let d = bitlen a - bitlen b in if pow2_le_frac d a b then d else d - 1)"

text \<open>
  The double nearest to \<open>a / b\<close> for \<open>0 < a\<close> and \<open>0 < b\<close>: 53 significant bits, the
  exponent not below that of the subnormals.
\<close>

definition nearest_dbl_pos :: "int \<Rightarrow> int \<Rightarrow> dbl" where
  "nearest_dbl_pos a b =
     (let e = max (ilog2_frac a b - 52) (- 1074);
          m = (if 0 \<le> e then round_half_even_div a (b * 2 ^ nat e)
               else round_half_even_div (a * 2 ^ nat (- e)) b)
      in (m, e))"

definition dbl_finite :: "dbl \<Rightarrow> bool" where
  "dbl_finite d = (snd d < 0 \<or> \<bar>fst d\<bar> * 2 ^ nat (snd d) < 2 ^ 1024)"

definition nearest_dbl :: "int \<Rightarrow> int \<Rightarrow> dbl" where
  "nearest_dbl a b =
     (if a = 0 then (0, 0)
      else if 0 < a then nearest_dbl_pos a b
      else (let (m, e) = nearest_dbl_pos (- a) b in (- m, e)))"

text \<open>\<^verbatim>\<open>x / n\<close> for a decoded value \<open>x\<close> and an int literal \<open>0 < n\<close>.\<close>

fun py_truediv :: "pyval \<Rightarrow> int \<Rightarrow> py_error + dbl" where
  "py_truediv (PInt a) n =
     (let d = nearest_dbl a n in if dbl_finite d then Inr d else Inl OverflowError)"
| "py_truediv (PBool b) n =
     (let d = nearest_dbl (if b then 1 else 0) n in if dbl_finite d then Inr d else Inl OverflowError)"
| "py_truediv (PFloat r) n =
     (let (p, q) = quotient_of r; d = nearest_dbl p (q * n)
      in if dbl_finite d then Inr d else Inl OverflowError)"
| "py_truediv _ n = Inl TypeError"

text \<open>
  \<^verbatim>\<open>f"{x:.1f}"\<close>: the exact value of the double rounded to one decimal, ties to
  even, printed with the integer part in full.
\<close>

definition tenths :: "dbl \<Rightarrow> int" where
  "tenths d =
     (let m = \<bar>fst d\<bar>; e = snd d
      in if 0 \<le> e then 10 * m * 2 ^ nat e else round_half_even_div (10 * m) (2 ^ nat (- e)))"

definition fmt_1f :: "dbl \<Rightarrow> string" where
  "fmt_1f d =
     (let q = tenths d
      in (if fst d < 0 then ''-'' else '''')
         @ show_dec (q div 10) @ ''.'' @ [digit_char (q mod 10)])"

subsection \<open>The host environment\<close>

text \<open>
  The class \<^verbatim>\<open>Colors\<close> holds the ANSI escape sequences; \<^verbatim>\<open>main\<close> overwrites every
  attribute with the empty string when colour is disabled, so the rendering functions
  read them from the environment.
\<close>

record colors =
  HEADER :: string
  OKBLUE :: string
  OKCYAN :: string
  OKGREEN :: string
  WARNING :: string
  FAIL :: string
  ENDC :: string
  BOLD :: string
  UNDERLINE :: string

definition esc :: char where
  "esc = char_of (27 :: nat)"

definition ansi_colors :: colors where
  "ansi_colors =
     \<lparr> HEADER = esc # ''[95m'', OKBLUE = esc # ''[94m'', OKCYAN = esc # ''[96m'',
       OKGREEN = esc # ''[92m'', WARNING = esc # ''[93m'', FAIL = esc # ''[91m'',
       ENDC = esc # ''[0m'', BOLD = esc # ''[1m'', UNDERLINE = esc # ''[4m'' \<rparr>"

definition no_colors :: colors where
  "no_colors =
     \<lparr> HEADER = [], OKBLUE = [], OKCYAN = [], OKGREEN = [], WARNING = [], FAIL = [],
       ENDC = [], BOLD = [], UNDERLINE = [] \<rparr>"

text \<open>
  What the rendering of one event reads from the interpreter and the operating system:
  \<^item> \<open>clock_ms\<close>: the value of \<^verbatim>\<open>time.time() * 1000\<close> on line 118;
  \<^item> \<open>clock_start\<close>: the value of \<^verbatim>\<open>time.time()\<close> on line 53;
  \<^item> \<open>fromtimestamp_hms x\<close>: \<^verbatim>\<open>datetime.fromtimestamp(x).strftime('%H:%M:%S')\<close>,
    which depends on the local time zone and raises outside the platform's range;
  \<^item> \<open>float_repr\<close>: \<^verbatim>\<open>repr\<close> of a float (the shortest string that reads back);
  \<^item> \<open>str_repr\<close>: \<^verbatim>\<open>repr\<close> of a str (quoting and escapes);
  \<^item> \<open>palette\<close>: the current attributes of \<^verbatim>\<open>Colors\<close>.
\<close>

record host =
  clock_ms :: rat
  clock_start :: rat
  fromtimestamp_hms :: "rat \<Rightarrow> py_error + string"
  float_repr :: "rat \<Rightarrow> string"
  str_repr :: "string \<Rightarrow> string"
  palette :: colors

subsection \<open>String conversion\<close>

definition py_join :: "string \<Rightarrow> string list \<Rightarrow> string" where
  "py_join sep xs = (case xs of [] \<Rightarrow> [] | y # ys \<Rightarrow> y @ concat (map (\<lambda>z. sep @ z) ys))"

text \<open>\<^verbatim>\<open>repr(x)\<close>; inside a list or a dict the elements are shown by \<^verbatim>\<open>repr\<close>.\<close>

fun py_repr :: "host \<Rightarrow> pyval \<Rightarrow> string" where
  "py_repr h PNone = ''None''"
| "py_repr h (PBool b) = (if b then ''True'' else ''False'')"
| "py_repr h (PInt i) = show_int i"
| "py_repr h (PFloat r) = float_repr h r"
| "py_repr h (PStr s) = str_repr h s"
| "py_repr h (PList xs) = ''['' @ py_join '', '' (map (py_repr h) xs) @ '']''"
| "py_repr h (PDict kvs) =
     ''{'' @ py_join '', '' (map (\<lambda>kv. str_repr h (fst kv) @ '': '' @ py_repr h (snd kv)) kvs) @ ''}''"

text \<open>\<^verbatim>\<open>f"{x}"\<close>, that is \<^verbatim>\<open>str(x)\<close>.\<close>

definition py_str :: "host \<Rightarrow> pyval \<Rightarrow> string" where
  "py_str h x = (case x of PStr s \<Rightarrow> s | _ \<Rightarrow> py_repr h x)"

subsection \<open>Events\<close>

text \<open>
  An event is the dict that \<^verbatim>\<open>json.loads\<close> returns: its items in insertion order.
  \<^verbatim>\<open>event.get(k, d)\<close> is \<open>get_or\<close>, and \<^verbatim>\<open>event.get(k)\<close> is \<open>get_or ev k PNone\<close>.
\<close>

type_synonym event = "(string \<times> pyval) list"

definition get_or :: "event \<Rightarrow> string \<Rightarrow> pyval \<Rightarrow> pyval" where
  "get_or ev k d = (case map_of ev k of Some v \<Rightarrow> v | None \<Rightarrow> d)"

section \<open>Formatting durations and timestamps\<close>

text \<open>\<^verbatim>\<open>x < n\<close> for a decoded value and an int literal.\<close>

fun py_lt_int :: "pyval \<Rightarrow> int \<Rightarrow> py_error + bool" where
  "py_lt_int (PInt i) n = Inr (i < n)"
| "py_lt_int (PBool b) n = Inr ((if b then 1 else 0) < n)"
| "py_lt_int (PFloat r) n = Inr (r < of_int n)"
| "py_lt_int _ n = Inl TypeError"

definition format_duration :: "host \<Rightarrow> pyval \<Rightarrow> py_error + string" where
  "format_duration h ms =
     (case py_lt_int ms 1000 of
        Inl err \<Rightarrow> Inl err
      | Inr True \<Rightarrow> Inr (py_str h ms @ ''ms'')
      | Inr False \<Rightarrow>
          (case py_lt_int ms 60000 of
             Inl err \<Rightarrow> Inl err
           | Inr True \<Rightarrow>
               (case py_truediv ms 1000 of
                  Inl err \<Rightarrow> Inl err
                | Inr d \<Rightarrow> Inr (fmt_1f d @ ''s''))
           | Inr False \<Rightarrow>
               (case py_truediv ms 60000 of
                  Inl err \<Rightarrow> Inl err
                | Inr d \<Rightarrow> Inr (fmt_1f d @ ''m''))))"

definition format_timestamp :: "host \<Rightarrow> pyval \<Rightarrow> py_error + string" where
  "format_timestamp h timestamp_ms =
     (case py_truediv timestamp_ms 1000 of
        Inl err \<Rightarrow> Inl err
      | Inr d \<Rightarrow> fromtimestamp_hms h (dbl_val d))"

section \<open>The agent tracker\<close>

text \<open>
  The keys of a Python dict are compared by \<^verbatim>\<open>==\<close> after hashing: \<^verbatim>\<open>True\<close>,
  \<^verbatim>\<open>1\<close> and \<^verbatim>\<open>1.0\<close> are one key, lists and dicts are unhashable.
\<close>

datatype key = KNone | KNum rat | KStr string

fun hash_key :: "pyval \<Rightarrow> py_error + key" where
  "hash_key PNone = Inr KNone"
| "hash_key (PBool b) = Inr (KNum (if b then 1 else 0))"
| "hash_key (PInt i) = Inr (KNum (of_int i))"
| "hash_key (PFloat r) = Inr (KNum r)"
| "hash_key (PStr s) = Inr (KStr s)"
| "hash_key (PList xs) = Inl TypeError"
| "hash_key (PDict kvs) = Inl TypeError"

record agent_rec =
  parentId :: pyval
  startTime :: rat
  depth :: int

text \<open>
  Both dicts of \<^verbatim>\<open>AgentTracker\<close> keep their items in insertion order; assigning to a
  key that is present replaces the value in place (\<open>AList.update\<close>).
\<close>

record tracker =
  agents :: "(key \<times> agent_rec) list"
  parent_children :: "(key \<times> pyval list) list"

definition init_tracker :: tracker where
  "init_tracker = \<lparr> agents = [], parent_children = [] \<rparr>"

text \<open>Lines 57 to 60; the parent id has been hashed on line 48 already.\<close>

definition add_child :: "(key \<times> pyval list) list \<Rightarrow> pyval \<Rightarrow> pyval \<Rightarrow> (key \<times> pyval list) list" where
  "add_child pcs parent_id agent_id =
     (case hash_key parent_id of
        Inl err \<Rightarrow> pcs
      | Inr pk \<Rightarrow>
          AList.update pk ((case map_of pcs pk of None \<Rightarrow> [] | Some cs \<Rightarrow> cs) @ [agent_id]) pcs)"

text \<open>\<open>now\<close> is the value of \<^verbatim>\<open>time.time()\<close> on line 53.\<close>

definition start_agent :: "rat \<Rightarrow> tracker \<Rightarrow> pyval \<Rightarrow> pyval \<Rightarrow> py_error + tracker" where
  "start_agent now tr agent_id parent_id =
     (case (if truthy parent_id
            then (case hash_key parent_id of
                    Inl err \<Rightarrow> Inl err
                  | Inr pk \<Rightarrow>
                      Inr (case map_of (agents tr) pk of Some p \<Rightarrow> depth p + 1 | None \<Rightarrow> 0))
            else Inr 0) of
        Inl err \<Rightarrow> Inl err
      | Inr d \<Rightarrow>
          (case hash_key agent_id of
             Inl err \<Rightarrow> Inl err
           | Inr ak \<Rightarrow>
               Inr \<lparr> agents =
                       AList.update ak \<lparr> parentId = parent_id, startTime = now, depth = d \<rparr>
                         (agents tr),
                     parent_children =
                       (if truthy parent_id then add_child (parent_children tr) parent_id agent_id
                        else parent_children tr) \<rparr>))"

text \<open>\<^verbatim>\<open>xs.index(v)\<close> compares with \<^verbatim>\<open>==\<close> and does not hash.\<close>

fun list_index :: "key list \<Rightarrow> pyval \<Rightarrow> nat option" where
  "list_index [] v = None"
| "list_index (k # ks) v =
     (if hash_key v = Inr k then Some 0 else map_option Suc (list_index ks v))"

text \<open>
  \<^verbatim>\<open>sorted\<close> is stable, and so is \<open>sort_key\<close>.  The sort key of an id is the
  \<^verbatim>\<open>startTime\<close> of its own record, so the items are sorted and the ids projected.
\<close>

definition sorted_agents :: "tracker \<Rightarrow> key list" where
  "sorted_agents tr = map fst (sort_key (\<lambda>kv. startTime (snd kv)) (agents tr))"

definition get_agent_num :: "tracker \<Rightarrow> pyval \<Rightarrow> int" where
  "get_agent_num tr agent_id =
     (case list_index (sorted_agents tr) agent_id of Some i \<Rightarrow> int i + 1 | None \<Rightarrow> 0)"

definition arrow :: string where
  "arrow = [char_of (226 :: nat), char_of (134 :: nat), char_of (146 :: nat)]"

definition get_agent_prefix :: "tracker \<Rightarrow> pyval \<Rightarrow> py_error + string" where
  "get_agent_prefix tr agent_id =
     (case hash_key agent_id of
        Inl err \<Rightarrow> Inl err
      | Inr k \<Rightarrow>
          (case map_of (agents tr) k of
             None \<Rightarrow> Inr ''[Agent]''
           | Some agent \<Rightarrow>
               (if truthy (parentId agent)
                then (let parent_num = get_agent_num tr (parentId agent);
                          child_num = get_agent_num tr agent_id
                      in Inr (''[Agent #'' @ show_int child_num @ '' '' @ arrow @ '' #''
                              @ show_int parent_num @ '']''))
                else (let agent_num = get_agent_num tr agent_id
                      in Inr (''[Agent #'' @ show_int agent_num @ '']'')))))"

text \<open>\<^verbatim>\<open>"  " * depth\<close> is empty for a negative count.\<close>

definition get_indent :: "tracker \<Rightarrow> pyval \<Rightarrow> py_error + string" where
  "get_indent tr agent_id =
     (case hash_key agent_id of
        Inl err \<Rightarrow> Inl err
      | Inr k \<Rightarrow>
          (case map_of (agents tr) k of
             None \<Rightarrow> Inr []
           | Some agent \<Rightarrow> Inr (concat (replicate (nat (depth agent)) ''  ''))))"

section \<open>Rendering events\<close>

subsection \<open>Joining the elements of a decoded value\<close>

text \<open>
  \<^verbatim>\<open>', '.join(x)\<close> iterates over \<open>x\<close> and requires every element to be a str.  A
  list yields its elements, a dict its keys and a str its characters (the code points of
  the UTF-8 text); the other values are not iterable.
\<close>

definition is_cont :: "char \<Rightarrow> bool" where
  "is_cont c = (128 \<le> (of_char c :: nat) \<and> (of_char c :: nat) < 192)"

function utf8_chars :: "string \<Rightarrow> string list" where
  "utf8_chars [] = []"
| "utf8_chars (c # cs) = (c # takeWhile is_cont cs) # utf8_chars (dropWhile is_cont cs)"
  by pat_completeness auto
termination
  by (relation "measure length") (auto simp: length_dropWhile_le less_Suc_eq_le)

fun str_items :: "pyval list \<Rightarrow> py_error + string list" where
  "str_items [] = Inr []"
| "str_items (PStr s # xs) =
     (case str_items xs of Inl err \<Rightarrow> Inl err | Inr ys \<Rightarrow> Inr (s # ys))"
| "str_items (x # xs) = Inl TypeError"

fun join_value :: "string \<Rightarrow> pyval \<Rightarrow> py_error + string" where
  "join_value sep (PList xs) =
     (case str_items xs of Inl err \<Rightarrow> Inl err | Inr ys \<Rightarrow> Inr (py_join sep ys))"
| "join_value sep (PDict kvs) = Inr (py_join sep (map fst kvs))"
| "join_value sep (PStr s) = Inr (py_join sep (utf8_chars s))"
| "join_value sep x = Inl TypeError"

text \<open>\<^verbatim>\<open>server_info.get('features', [])\<close>: only a dict has the method.\<close>

fun get_features :: "pyval \<Rightarrow> py_error + pyval" where
  "get_features (PDict kvs) = Inr (get_or kvs ''features'' (PList []))"
| "get_features x = Inl AttributeError"

subsection \<open>One function for each branch of \<^verbatim>\<open>format_event\<close>\<close>

text \<open>
  Each function returns the list \<^verbatim>\<open>output\<close> that its branch builds; \<open>ts\<close> is the
  formatted timestamp, \<open>ind\<close> and \<open>pre\<close> are the indentation and the agent prefix.
\<close>

definition render_connected :: "host \<Rightarrow> event \<Rightarrow> string \<Rightarrow> py_error + string list" where
  "render_connected h ev ts =
     (let c = palette h;
          l1 = OKGREEN c @ ''['' @ ts @ ''] Connected to Lynkr progress server'' @ ENDC c;
          l2 = ''  Client ID: '' @ py_str h (get_or ev ''clientId'' PNone);
          server_info = get_or ev ''serverInfo'' (PDict [])
      in if truthy server_info
         then (case get_features server_info of
                 Inl err \<Rightarrow> Inl err
               | Inr fs \<Rightarrow>
                   (case join_value '', '' fs of
                      Inl err \<Rightarrow> Inl err
                    | Inr joined \<Rightarrow> Inr [l1, l2, ''  Features: '' @ joined]))
         else Inr [l1, l2])"

definition render_ready :: "host \<Rightarrow> event \<Rightarrow> string \<Rightarrow> py_error + string list" where
  "render_ready h ev ts =
     (let c = palette h
      in Inr [OKCYAN c @ ''['' @ ts @ ''] '' @ py_str h (get_or ev ''message'' (PStr ''Ready''))
              @ ENDC c])"

definition render_agent_loop_started ::
    "host \<Rightarrow> event \<Rightarrow> string \<Rightarrow> string \<Rightarrow> string \<Rightarrow> py_error + string list" where
  "render_agent_loop_started h ev ts ind pre =
     (let c = palette h;
          l1 = ind @ HEADER c @ ''['' @ ts @ ''] '' @ pre @ '' '' @ BOLD c @ ''Started'' @ ENDC c;
          l2 = ind @ ''  Model: '' @ OKCYAN c @ py_str h (get_or ev ''model'' PNone) @ ENDC c;
          l3 = ind @ ''  Provider: '' @ py_str h (get_or ev ''providerType'' PNone);
          l4 = ind @ ''  Max steps: '' @ py_str h (get_or ev ''maxSteps'' PNone)
      in case format_duration h (get_or ev ''maxDurationMs'' (PInt 0)) of
           Inl err \<Rightarrow> Inl err
         | Inr dur \<Rightarrow> Inr [l1, l2, l3, l4, ind @ ''  Max duration: '' @ dur])"

definition render_agent_loop_step_started ::
    "host \<Rightarrow> event \<Rightarrow> string \<Rightarrow> string \<Rightarrow> string \<Rightarrow> py_error + string list" where
  "render_agent_loop_step_started h ev ts ind pre =
     (let c = palette h;
          step = get_or ev ''step'' (PInt 0);
          max_steps = get_or ev ''maxSteps'' (PInt 0);
          progress_pct = get_or ev ''progress'' (PInt 0)
      in Inr [ind @ OKBLUE c @ ''['' @ ts @ ''] '' @ pre @ '' Step '' @ BOLD c @ py_str h step
              @ ''/'' @ py_str h max_steps @ ENDC c @ '' ('' @ py_str h progress_pct @ ''%)''])"

definition render_model_invocation_started ::
    "host \<Rightarrow> event \<Rightarrow> string \<Rightarrow> string \<Rightarrow> string \<Rightarrow> py_error + string list" where
  "render_model_invocation_started h ev ts ind pre =
     (let c = palette h;
          l1 = ind @ OKCYAN c @ ''['' @ ts @ ''] '' @ pre @ '' Calling model...'' @ ENDC c;
          l2 = ind @ ''  Model: '' @ py_str h (get_or ev ''model'' PNone);
          l3 = ind @ ''  Provider: '' @ py_str h (get_or ev ''providerType'' PNone);
          estimated = get_or ev ''estimatedTokens'' PNone
      in Inr ([l1, l2, l3]
              @ (if truthy estimated
                 then [ind @ ''  Estimated tokens: ~'' @ py_str h estimated] else [])))"

definition render_model_invocation_completed ::
    "host \<Rightarrow> event \<Rightarrow> string \<Rightarrow> string \<Rightarrow> string \<Rightarrow> py_error + string list" where
  "render_model_invocation_completed h ev ts ind pre =
     (let c = palette h;
          duration = get_or ev ''durationMs'' (PInt 0);
          input_tokens = get_or ev ''inputTokens'' (PInt 0);
          output_tokens = get_or ev ''outputTokens'' (PInt 0);
          l1 = ind @ OKGREEN c @ ''['' @ ts @ ''] '' @ pre @ '' Model response received'' @ ENDC c
      in case format_duration h duration of
           Inl err \<Rightarrow> Inl err
         | Inr dur \<Rightarrow>
             Inr [l1, ind @ ''  Duration: '' @ dur,
                  ind @ ''  Tokens: '' @ py_str h input_tokens @ '' in '' @ arrow @ '' ''
                  @ py_str h output_tokens @ '' out''])"

definition render_tool_execution_started ::
    "host \<Rightarrow> event \<Rightarrow> string \<Rightarrow> string \<Rightarrow> string \<Rightarrow> py_error + string list" where
  "render_tool_execution_started h ev ts ind pre =
     (let c = palette h;
          tool_name = get_or ev ''toolName'' (PStr ''unknown'');
          tool_id = get_or ev ''toolId'' (PStr []);
          request_preview = get_or ev ''requestPreview'' PNone
      in Inr ([ind @ WARNING c @ ''['' @ ts @ ''] '' @ pre @ '' Executing tool: '' @ BOLD c
               @ py_str h tool_name @ ENDC c]
              @ (if truthy request_preview
                 then [ind @ ''  Request: '' @ py_str h request_preview] else [])
              @ (if truthy tool_id then [ind @ ''  ID: '' @ py_str h tool_id] else [])))"

definition render_tool_execution_completed ::
    "host \<Rightarrow> event \<Rightarrow> string \<Rightarrow> string \<Rightarrow> string \<Rightarrow> py_error + string list" where
  "render_tool_execution_completed h ev ts ind pre =
     (let c = palette h;
          tool_name = get_or ev ''toolName'' (PStr ''unknown'');
          ok = get_or ev ''ok'' (PBool True);
          duration = get_or ev ''durationMs'' (PInt 0);
          response_preview = get_or ev ''responsePreview'' PNone;
          status = (if truthy ok then OKGREEN c @ ''OK'' @ ENDC c else FAIL c @ ''FAILED'' @ ENDC c);
          l1 = ind @ OKCYAN c @ ''['' @ ts @ ''] '' @ pre @ '' Tool '' @ py_str h tool_name @ '': ''
               @ status @ ENDC c
      in case format_duration h duration of
           Inl err \<Rightarrow> Inl err
         | Inr dur \<Rightarrow>
             Inr ([l1, ind @ ''  Duration: '' @ dur]
                  @ (if truthy response_preview
                     then [ind @ ''  Response: '' @ py_str h response_preview] else [])))"

definition render_agent_loop_completed ::
    "host \<Rightarrow> event \<Rightarrow> string \<Rightarrow> string \<Rightarrow> string \<Rightarrow> py_error + string list" where
  "render_agent_loop_completed h ev ts ind pre =
     (let c = palette h;
          duration = get_or ev ''durationMs'' (PInt 0);
          steps = get_or ev ''steps'' (PInt 0);
          tool_calls = get_or ev ''toolCallsExecuted'' (PInt 0);
          reason = get_or ev ''terminationReason'' (PStr ''completion'');
          l1 = ind @ OKGREEN c @ BOLD c @ ''['' @ ts @ ''] '' @ pre @ '' Completed'' @ ENDC c
      in case format_duration h duration of
           Inl err \<Rightarrow> Inl err
         | Inr dur \<Rightarrow>
             Inr [l1, ind @ ''  Duration: '' @ dur, ind @ ''  Steps: '' @ py_str h steps,
                  ind @ ''  Tool calls: '' @ py_str h tool_calls,
                  ind @ ''  Reason: '' @ py_str h reason])"

definition render_error :: "host \<Rightarrow> event \<Rightarrow> string \<Rightarrow> py_error + string list" where
  "render_error h ev ts =
     (let c = palette h;
          error_type = get_or ev ''errorType'' (PStr ''unknown'');
          message = get_or ev ''errorMessage'' (PStr ''No message'')
      in Inr [FAIL c @ BOLD c @ ''['' @ ts @ ''] ERROR: '' @ py_str h error_type @ ENDC c,
              ''  '' @ py_str h message])"

definition render_shutdown :: "host \<Rightarrow> string \<Rightarrow> py_error + string list" where
  "render_shutdown h ts =
     (let c = palette h in Inr [WARNING c @ ''['' @ ts @ ''] Server shutting down'' @ ENDC c])"

text \<open>Lines 215 to 220: the type line, then the items in the order of the dict.\<close>

definition render_unknown :: "host \<Rightarrow> event \<Rightarrow> pyval \<Rightarrow> string \<Rightarrow> py_error + string list" where
  "render_unknown h ev event_type ts =
     (let c = palette h
      in Inr ((OKCYAN c @ ''['' @ ts @ ''] '' @ py_str h event_type @ ENDC c)
              # map (\<lambda>kv. ''  '' @ fst kv @ '': '' @ py_str h (snd kv))
                  (filter (\<lambda>kv. fst kv \<notin> set [''type'', ''timestamp'']) ev)))"

subsection \<open>\<^verbatim>\<open>format_event\<close>\<close>

text \<open>
  Lines 122 to 133: registration on \<^verbatim>\<open>agent_loop_started\<close>, then the prefix and the
  indentation of the agent.  The result is the tracker afterwards with either the
  exception raised or the pair \<open>(agent_prefix, indent)\<close>.  An exception of
  \<^verbatim>\<open>start_agent\<close> is raised before either dict is assigned to.
\<close>

definition lookup_context :: "tracker \<Rightarrow> pyval \<Rightarrow> py_error + string \<times> string" where
  "lookup_context tr agent_id =
     (case get_agent_prefix tr agent_id of
        Inl err \<Rightarrow> Inl err
      | Inr agent_prefix \<Rightarrow>
          (case get_indent tr agent_id of
             Inl err \<Rightarrow> Inl err
           | Inr indent \<Rightarrow> Inr (agent_prefix, indent)))"

definition agent_context :: "host \<Rightarrow> tracker \<Rightarrow> event \<Rightarrow> tracker \<times> (py_error + string \<times> string)" where
  "agent_context h tr ev =
     (let event_type = get_or ev ''type'' (PStr ''unknown'');
          agent_id = get_or ev ''agentId'' PNone;
          parent_agent_id = get_or ev ''parentAgentId'' PNone
      in if event_type = PStr ''agent_loop_started'' \<and> truthy agent_id
         then (case start_agent (clock_start h) tr agent_id parent_agent_id of
                 Inl err \<Rightarrow> (tr, Inl err)
               | Inr tr' \<Rightarrow> (tr', lookup_context tr' agent_id))
         else if truthy agent_id then (tr, lookup_context tr agent_id)
         else (tr, Inr ([], [])))"

text \<open>Lines 135 to 220: the branch is chosen by comparing the type with str literals.\<close>

definition render_event ::
    "host \<Rightarrow> event \<Rightarrow> string \<Rightarrow> string \<Rightarrow> string \<Rightarrow> py_error + string list" where
  "render_event h ev ts ind pre =
     (let event_type = get_or ev ''type'' (PStr ''unknown'')
      in if event_type = PStr ''connected'' then render_connected h ev ts
         else if event_type = PStr ''ready'' then render_ready h ev ts
         else if event_type = PStr ''agent_loop_started''
           then render_agent_loop_started h ev ts ind pre
         else if event_type = PStr ''agent_loop_step_started''
           then render_agent_loop_step_started h ev ts ind pre
         else if event_type = PStr ''model_invocation_started''
           then render_model_invocation_started h ev ts ind pre
         else if event_type = PStr ''model_invocation_completed''
           then render_model_invocation_completed h ev ts ind pre
         else if event_type = PStr ''tool_execution_started''
           then render_tool_execution_started h ev ts ind pre
         else if event_type = PStr ''tool_execution_completed''
           then render_tool_execution_completed h ev ts ind pre
         else if event_type = PStr ''agent_loop_completed''
           then render_agent_loop_completed h ev ts ind pre
         else if event_type = PStr ''error'' then render_error h ev ts
         else if event_type = PStr ''server:shutdown'' then render_shutdown h ts
         else render_unknown h ev event_type ts)"

text \<open>
  The list \<^verbatim>\<open>output\<close> at line 222, with the tracker after the call.  The timestamp
  is formatted on line 118, before the tracker is touched.
\<close>

definition format_event_lines :: "host \<Rightarrow> tracker \<Rightarrow> event \<Rightarrow> tracker \<times> (py_error + string list)" where
  "format_event_lines h tr ev =
     (case format_timestamp h (get_or ev ''timestamp'' (PFloat (clock_ms h))) of
        Inl err \<Rightarrow> (tr, Inl err)
      | Inr ts \<Rightarrow>
          (case agent_context h tr ev of
             (tr', Inl err) \<Rightarrow> (tr', Inl err)
           | (tr', Inr (agent_prefix, indent)) \<Rightarrow> (tr', render_event h ev ts indent agent_prefix)))"

definition newline :: string where
  "newline = [char_of (10 :: nat)]"

definition format_event :: "host \<Rightarrow> tracker \<Rightarrow> event \<Rightarrow> tracker \<times> (py_error + string)" where
  "format_event h tr ev =
     (case format_event_lines h tr ev of
        (tr', Inl err) \<Rightarrow> (tr', Inl err)
      | (tr', Inr output) \<Rightarrow> (tr', Inr (py_join newline output)))"

section \<open>Runs of the tracker and sample inputs\<close>

text \<open>
  What can happen to the tracker: a direct call of \<^verbatim>\<open>start_agent\<close> with the clock
  reading it sees, or the rendering of an event.  A call that raises leaves the tracker as
  the exception found it.
\<close>

datatype call = Start rat pyval pyval | Render host event

fun apply_call :: "tracker \<Rightarrow> call \<Rightarrow> tracker" where
  "apply_call tr (Start now agent_id parent_id) =
     (case start_agent now tr agent_id parent_id of Inl err \<Rightarrow> tr | Inr tr' \<Rightarrow> tr')"
| "apply_call tr (Render h ev) = fst (format_event h tr ev)"

definition run :: "tracker \<Rightarrow> call list \<Rightarrow> tracker" where
  "run tr calls = foldl apply_call tr calls"

text \<open>The call registers, or registers again, the agent whose id hashes to \<open>k\<close>.\<close>

fun registers :: "key \<Rightarrow> call \<Rightarrow> bool" where
  "registers k (Start now agent_id parent_id) = (hash_key agent_id = Inr k)"
| "registers k (Render h ev) =
     (get_or ev ''type'' (PStr ''unknown'') = PStr ''agent_loop_started''
      \<and> truthy (get_or ev ''agentId'' PNone)
      \<and> hash_key (get_or ev ''agentId'' PNone) = Inr k)"

text \<open>
  The record of the parent that a registration finds: none when no parent id is given
  (\<^verbatim>\<open>None\<close>, or an id that is false as a condition) or when the id is not registered.
\<close>

definition parent_record :: "tracker \<Rightarrow> pyval \<Rightarrow> agent_rec option" where
  "parent_record tr parent_id =
     (if truthy parent_id
      then (case hash_key parent_id of Inl err \<Rightarrow> None | Inr pk \<Rightarrow> map_of (agents tr) pk)
      else None)"


text \<open>A host for the examples: colours on, noon on the clock face.\<close>

definition sample_host :: host where
  "sample_host =
     \<lparr> clock_ms = 1700000000000, clock_start = 1700000000,
       fromtimestamp_hms = (\<lambda>x. Inr ''12:00:00''),
       float_repr = (\<lambda>r. ''1.5''), str_repr = (\<lambda>s. CHR 0x27 # s @ [CHR 0x27]),
       palette = ansi_colors \<rparr>"

text \<open>The str literals that the chain of comparisons on lines 135 to 212 tests.\<close>

definition known_types :: "string list" where
  "known_types =
     [''connected'', ''ready'', ''agent_loop_started'', ''agent_loop_step_started'',
      ''model_invocation_started'', ''model_invocation_completed'', ''tool_execution_started'',
      ''tool_execution_completed'', ''agent_loop_completed'', ''error'', ''server:shutdown'']"

section \<open>Optional fields of an event\<close>







section \<open>Basic facts\<close>

lemma get_or_simps:
  "get_or [] k d = d"
  "get_or ((k', v) # ev) k d = (if k' = k then v else get_or ev k d)"
  by (simp_all add: get_or_def)

lemma agent_context_unchanged:
  assumes "get_or ev ''type'' (PStr ''unknown'') \<noteq> PStr ''agent_loop_started''
            \<or> \<not> truthy (get_or ev ''agentId'' PNone)"
  shows "fst (agent_context h tr ev) = tr"
  using assms by (auto simp: agent_context_def Let_def)

lemma format_event_lines_fst:
  "fst (format_event_lines h tr ev) = tr \<or> fst (format_event_lines h tr ev) = fst (agent_context h tr ev)"
  by (auto simp: format_event_lines_def split: sum.splits prod.splits)

lemma format_event_fst: "fst (format_event h tr ev) = fst (format_event_lines h tr ev)"
  by (auto simp: format_event_def split: sum.splits prod.splits)

lemma format_timestamp_zero: "format_timestamp sample_host (PInt 0) = Inr ''12:00:00''"
  by (simp add: format_timestamp_def nearest_dbl_def dbl_finite_def sample_host_def)

lemma show_dec_digit: "0 \<le> n \<Longrightarrow> n < 10 \<Longrightarrow> show_dec n = [digit_char n]"
  by (simp add: show_dec.simps)

lemma digit_chars:
  "digit_char 0 = CHR ''0''" "digit_char 1 = CHR ''1''" "digit_char 2 = CHR ''2''"
  "digit_char 3 = CHR ''3''" "digit_char 4 = CHR ''4''" "digit_char 5 = CHR ''5''"
  "digit_char 6 = CHR ''6''" "digit_char 7 = CHR ''7''" "digit_char 8 = CHR ''8''"
  "digit_char 9 = CHR ''9''"
  by code_simp+

lemma format_duration_zero: "format_duration h (PInt 0) = Inr ''0ms''"
  by (simp add: format_duration_def py_str_def show_int_def show_dec_digit digit_chars)

section \<open>Rendering reads the tracker, registration apart\<close>

text \<open>
  Claim C6.  For every event whose type is not \<^verbatim>\<open>agent_loop_started\<close>,
  \<^verbatim>\<open>format_event\<close> leaves both dicts of the tracker as they were, whether it returns
  or raises: the call of \<^verbatim>\<open>start_agent\<close> on that type is the only mutation.
\<close>

theorem format_event_frame:
  assumes "get_or ev ''type'' (PStr ''unknown'') \<noteq> PStr ''agent_loop_started''"
  shows "fst (format_event h tr ev) = tr"
proof -
  have "fst (agent_context h tr ev) = tr"
    using assms by (simp add: agent_context_unchanged)
  with format_event_lines_fst [of h tr ev] show ?thesis
    by (auto simp: format_event_fst)
qed

theorem format_event_frame_witness:
  "get_or [(''type'', PStr ''agent_loop_step_started''), (''agentId'', PStr ''A'')]
      ''type'' (PStr ''unknown'') \<noteq> PStr ''agent_loop_started''
   \<and> fst (format_event sample_host
           \<lparr> agents = [(KStr ''A'', \<lparr> parentId = PNone, startTime = 3, depth = 0 \<rparr>)],
             parent_children = [] \<rparr>
           [(''type'', PStr ''agent_loop_step_started''), (''agentId'', PStr ''A'')])
       = \<lparr> agents = [(KStr ''A'', \<lparr> parentId = PNone, startTime = 3, depth = 0 \<rparr>)],
           parent_children = [] \<rparr>"
  using format_event_frame [of "[(''type'', PStr ''agent_loop_step_started''), (''agentId'', PStr ''A'')]"
      sample_host
      "\<lparr> agents = [(KStr ''A'', \<lparr> parentId = PNone, startTime = 3, depth = 0 \<rparr>)],
         parent_children = [] \<rparr>"]
  by (simp add: get_or_simps)

section \<open>An agent-started event without an agent id\<close>

text \<open>
  Claim C10.  When an \<^verbatim>\<open>agent_loop_started\<close> event has no \<^verbatim>\<open>agentId\<close> field, or
  one that is empty (or otherwise false as a condition), \<^verbatim>\<open>format_event\<close> registers
  nothing, so the tracker is unchanged, and the five lines of the header are built with the
  empty prefix and the empty indentation: no placeholder tag appears.  The only exceptions
  left are those of the timestamp and of the duration.
\<close>

theorem agent_started_without_id:
  assumes "get_or ev ''type'' (PStr ''unknown'') = PStr ''agent_loop_started''"
      and "\<not> truthy (get_or ev ''agentId'' PNone)"
  shows "fst (format_event h tr ev) = tr
       \<and> agent_context h tr ev = (tr, Inr ([], []))
       \<and> snd (format_event_lines h tr ev) =
          (case format_timestamp h (get_or ev ''timestamp'' (PFloat (clock_ms h))) of
             Inl err \<Rightarrow> Inl err
           | Inr ts \<Rightarrow>
               (case format_duration h (get_or ev ''maxDurationMs'' (PInt 0)) of
                  Inl err \<Rightarrow> Inl err
                | Inr dur \<Rightarrow>
                    Inr [HEADER (palette h) @ ''['' @ ts @ ''] '' @ '' '' @ BOLD (palette h)
                           @ ''Started'' @ ENDC (palette h),
                         ''  Model: '' @ OKCYAN (palette h) @ py_str h (get_or ev ''model'' PNone)
                           @ ENDC (palette h),
                         ''  Provider: '' @ py_str h (get_or ev ''providerType'' PNone),
                         ''  Max steps: '' @ py_str h (get_or ev ''maxSteps'' PNone),
                         ''  Max duration: '' @ dur]))"
proof -
  have ctx: "agent_context h tr ev = (tr, Inr ([], []))"
    using assms by (simp add: agent_context_def Let_def)
  have frame: "fst (format_event h tr ev) = tr"
    using format_event_lines_fst [of h tr ev] ctx by (auto simp: format_event_fst)
  have lines: "snd (format_event_lines h tr ev) =
          (case format_timestamp h (get_or ev ''timestamp'' (PFloat (clock_ms h))) of
             Inl err \<Rightarrow> Inl err
           | Inr ts \<Rightarrow> render_agent_loop_started h ev ts [] [])"
    using assms(1) by (simp add: format_event_lines_def ctx render_event_def split: sum.splits)
  show ?thesis
    using ctx frame lines
    by (simp add: render_agent_loop_started_def Let_def split: sum.splits)
qed

theorem agent_started_without_id_witness:
  "fst (format_event sample_host init_tracker
          [(''type'', PStr ''agent_loop_started''), (''timestamp'', PInt 0), (''agentId'', PStr [])])
     = init_tracker
   \<and> snd (format_event_lines sample_host init_tracker
          [(''type'', PStr ''agent_loop_started''), (''timestamp'', PInt 0), (''agentId'', PStr [])])
     = Inr [esc # ''[95m[12:00:00]  '' @ esc # ''[1mStarted'' @ esc # ''[0m'',
            ''  Model: '' @ esc # ''[96mNone'' @ esc # ''[0m'',
            ''  Provider: None'', ''  Max steps: None'', ''  Max duration: 0ms'']"
  using agent_started_without_id
    [of "[(''type'', PStr ''agent_loop_started''), (''timestamp'', PInt 0), (''agentId'', PStr [])]"
        sample_host init_tracker]
  by (simp add: get_or_simps format_timestamp_zero format_duration_zero py_str_def)
     (simp add: sample_host_def ansi_colors_def)

section \<open>Events of an unrecognised type\<close>

lemma lookup_context_hashable:
  assumes "hash_key a = Inr k"
  shows "\<exists>pre ind. lookup_context tr a = Inr (pre, ind)"
  using assms
  by (auto simp: lookup_context_def get_agent_prefix_def get_indent_def Let_def
           split: option.splits)

lemma agent_context_other_type:
  assumes "get_or ev ''type'' (PStr ''unknown'') \<noteq> PStr ''agent_loop_started''"
      and "hash_key (get_or ev ''agentId'' PNone) = Inr k"
  shows "\<exists>pre ind. agent_context h tr ev = (tr, Inr (pre, ind))"
  using assms lookup_context_hashable [OF assms(2), of tr]
  by (auto simp: agent_context_def Let_def)

lemma render_event_unknown:
  assumes "get_or ev ''type'' (PStr ''unknown'') \<notin> PStr ` set known_types"
  shows "render_event h ev ts ind pre = render_unknown h ev (get_or ev ''type'' (PStr ''unknown'')) ts"
  using assms by (simp add: render_event_def known_types_def Let_def)

lemma hash_key_error:
  assumes "hash_key a = Inl err"
  shows "err = TypeError"
  using assms by (cases a) auto

lemma lookup_context_unhashable:
  assumes "hash_key a = Inl err"
  shows "lookup_context tr a = Inl TypeError"
  using assms hash_key_error [OF assms]
  by (simp add: lookup_context_def get_agent_prefix_def)

text \<open>
  Claim C8, as stated, fails: the timestamp is formatted on line 118 for every type, so an
  event of an unrecognised type whose \<^verbatim>\<open>timestamp\<close> is null raises \<^verbatim>\<open>TypeError\<close> and
  renders nothing.
\<close>

theorem unknown_type_raise_counterexample:
  "format_event sample_host init_tracker
      [(''type'', PStr ''custom_x''), (''timestamp'', PNone), (''foo'', PStr ''bar''),
       (''baz'', PInt 3)]
   = (init_tracker, Inl TypeError)"
  by (simp add: format_event_def format_event_lines_def format_timestamp_def get_or_simps)

text \<open>
  Claim C8, amended.  For every event whose type is none of the recognised discriminants
  (also a missing type, which reads as \<^verbatim>\<open>'unknown'\<close>), \<^verbatim>\<open>format_event\<close> leaves the
  tracker as it is and
  \<^item> raises the exception of formatting the timestamp, if that raises;
  \<^item> else raises \<^verbatim>\<open>TypeError\<close>, if the \<^verbatim>\<open>agentId\<close> is true as a condition and
    unhashable (a non-empty list or dict);
  \<^item> else builds the type line and then exactly one line for each item of the event whose
    key is neither \<^verbatim>\<open>type\<close> nor \<^verbatim>\<open>timestamp\<close>, in the order of the items, and returns
    them joined by newlines.
\<close>

theorem unknown_type_render_or_raise:
  assumes "get_or ev ''type'' (PStr ''unknown'') \<notin> PStr ` set known_types"
  shows "format_event_lines h tr ev =
           (tr, case format_timestamp h (get_or ev ''timestamp'' (PFloat (clock_ms h))) of
                  Inl err \<Rightarrow> Inl err
                | Inr ts \<Rightarrow>
                    if truthy (get_or ev ''agentId'' PNone)
                       \<and> hash_key (get_or ev ''agentId'' PNone) = Inl TypeError
                    then Inl TypeError
                    else Inr ((OKCYAN (palette h) @ ''['' @ ts @ ''] ''
                                 @ py_str h (get_or ev ''type'' (PStr ''unknown''))
                                 @ ENDC (palette h))
                              # map (\<lambda>kv. ''  '' @ fst kv @ '': '' @ py_str h (snd kv))
                                  (filter (\<lambda>kv. fst kv \<noteq> ''type'' \<and> fst kv \<noteq> ''timestamp'')
                                     ev)))
       \<and> format_event h tr ev =
           (tr, case format_timestamp h (get_or ev ''timestamp'' (PFloat (clock_ms h))) of
                  Inl err \<Rightarrow> Inl err
                | Inr ts \<Rightarrow>
                    if truthy (get_or ev ''agentId'' PNone)
                       \<and> hash_key (get_or ev ''agentId'' PNone) = Inl TypeError
                    then Inl TypeError
                    else Inr (py_join newline
                           ((OKCYAN (palette h) @ ''['' @ ts @ ''] ''
                               @ py_str h (get_or ev ''type'' (PStr ''unknown''))
                               @ ENDC (palette h))
                            # map (\<lambda>kv. ''  '' @ fst kv @ '': '' @ py_str h (snd kv))
                                (filter (\<lambda>kv. fst kv \<noteq> ''type'' \<and> fst kv \<noteq> ''timestamp'')
                                   ev))))"
proof -
  define a where "a = get_or ev ''agentId'' PNone"
  have ne: "get_or ev ''type'' (PStr ''unknown'') \<noteq> PStr ''agent_loop_started''"
    using assms by (auto simp: known_types_def)
  have ctx: "agent_context h tr ev =
               (tr, if truthy a then lookup_context tr a else Inr ([], []))"
    using ne by (simp add: agent_context_def a_def Let_def)
  have look: "(\<exists>pre ind. lookup_context tr a = Inr (pre, ind)) \<and> hash_key a \<noteq> Inl TypeError
              \<or> lookup_context tr a = Inl TypeError \<and> hash_key a = Inl TypeError"
  proof (cases "hash_key a")
    case (Inl err)
    then show ?thesis
      using lookup_context_unhashable [OF Inl, of tr] hash_key_error [OF Inl] by simp
  next
    case (Inr k)
    then show ?thesis using lookup_context_hashable [OF Inr, of tr] by simp
  qed
  have lines: "format_event_lines h tr ev =
           (tr, case format_timestamp h (get_or ev ''timestamp'' (PFloat (clock_ms h))) of
                  Inl err \<Rightarrow> Inl err
                | Inr ts \<Rightarrow>
                    if truthy a \<and> hash_key a = Inl TypeError
                    then Inl TypeError
                    else render_unknown h ev (get_or ev ''type'' (PStr ''unknown'')) ts)"
    using look
    by (auto simp: format_event_lines_def ctx render_event_unknown [OF assms]
             split: sum.splits)
  show ?thesis
    unfolding format_event_def lines a_def [symmetric]
    by (auto simp: render_unknown_def Let_def split: sum.splits)
qed

theorem unknown_type_render_or_raise_witness:
  "format_event_lines sample_host init_tracker
      [(''type'', PStr ''custom_x''), (''timestamp'', PInt 0), (''foo'', PStr ''bar''),
       (''baz'', PInt 3)]
     = (init_tracker,
        Inr [esc # ''[96m[12:00:00] custom_x'' @ esc # ''[0m'', ''  foo: bar'', ''  baz: 3''])"
  using unknown_type_render_or_raise
    [of "[(''type'', PStr ''custom_x''), (''timestamp'', PInt 0), (''foo'', PStr ''bar''),
          (''baz'', PInt 3)]" sample_host init_tracker]
  by (simp add: get_or_simps format_timestamp_zero known_types_def py_str_def show_int_def
        show_dec_digit digit_chars)
     (simp add: sample_host_def ansi_colors_def)

section \<open>The prefix is the same on the start and on the next step\<close>

lemma agent_context_after_start:
  assumes "get_or ev1 ''type'' (PStr ''unknown'') = PStr ''agent_loop_started''"
      and "get_or ev2 ''type'' (PStr ''unknown'') \<noteq> PStr ''agent_loop_started''"
      and "get_or ev2 ''agentId'' PNone = get_or ev1 ''agentId'' PNone"
      and "agent_context h1 tr ev1 = (tr1, Inr ctx)"
  shows "agent_context h2 tr1 ev2 = (tr1, Inr ctx)"
  using assms by (auto simp: agent_context_def Let_def split: sum.splits if_splits)

lemma format_event_lines_InrD:
  assumes "format_event_lines h tr ev = (tr1, Inr ls)"
  shows "\<exists>ts pre ind.
           format_timestamp h (get_or ev ''timestamp'' (PFloat (clock_ms h))) = Inr ts
         \<and> agent_context h tr ev = (tr1, Inr (pre, ind))
         \<and> render_event h ev ts ind pre = Inr ls"
  using assms by (auto simp: format_event_lines_def split: sum.splits prod.splits)

lemma lines1_eval:
  "format_event_lines sample_host init_tracker
      [(''type'', PStr ''agent_loop_started''), (''timestamp'', PInt 0), (''agentId'', PStr ''A'')]
   = (\<lparr> agents = [(KStr ''A'', \<lparr> parentId = PNone, startTime = 1700000000, depth = 0 \<rparr>)],
        parent_children = [] \<rparr>,
      Inr [esc # ''[95m[12:00:00] [Agent #1] '' @ esc # ''[1mStarted'' @ esc # ''[0m'',
           ''  Model: '' @ esc # ''[96mNone'' @ esc # ''[0m'',
           ''  Provider: None'', ''  Max steps: None'', ''  Max duration: 0ms''])"
  apply (simp add: format_event_lines_def get_or_simps format_timestamp_zero agent_context_def
        start_agent_def init_tracker_def lookup_context_def get_agent_prefix_def get_indent_def
        get_agent_num_def sorted_agents_def show_int_def show_dec_digit digit_chars
        render_event_def render_agent_loop_started_def format_duration_zero py_str_def)
  apply (simp add: sample_host_def ansi_colors_def)
  done

text \<open>
  Claim C7.  Rendering an \<^verbatim>\<open>agent_loop_started\<close> event and then, with nothing in
  between, an \<^verbatim>\<open>agent_loop_step_started\<close> event with the same \<^verbatim>\<open>agentId\<close> computes
  the same prefix and the same indentation both times, and the first line of each
  rendering begins with that indentation and carries that prefix.  The first rendering is
  assumed to return and the timestamp of the second to format; whether the id was
  registered before does not matter.
\<close>

theorem started_then_step_same_context:
  assumes "get_or ev1 ''type'' (PStr ''unknown'') = PStr ''agent_loop_started''"
      and "get_or ev2 ''type'' (PStr ''unknown'') = PStr ''agent_loop_step_started''"
      and "get_or ev2 ''agentId'' PNone = get_or ev1 ''agentId'' PNone"
      and "format_event_lines h1 tr ev1 = (tr1, Inr lines1)"
      and "format_timestamp h2 (get_or ev2 ''timestamp'' (PFloat (clock_ms h2))) = Inr ts2"
  shows "\<exists>pre ind ts1 rest.
           agent_context h1 tr ev1 = (tr1, Inr (pre, ind))
         \<and> agent_context h2 tr1 ev2 = (tr1, Inr (pre, ind))
         \<and> lines1 = (ind @ HEADER (palette h1) @ ''['' @ ts1 @ ''] '' @ pre @ '' ''
                       @ BOLD (palette h1) @ ''Started'' @ ENDC (palette h1)) # rest
         \<and> format_event_lines h2 tr1 ev2 =
             (tr1, Inr [ind @ OKBLUE (palette h2) @ ''['' @ ts2 @ ''] '' @ pre @ '' Step ''
                        @ BOLD (palette h2) @ py_str h2 (get_or ev2 ''step'' (PInt 0)) @ ''/''
                        @ py_str h2 (get_or ev2 ''maxSteps'' (PInt 0)) @ ENDC (palette h2)
                        @ '' ('' @ py_str h2 (get_or ev2 ''progress'' (PInt 0)) @ ''%)''])"
proof -
  obtain ts1 pre ind where
    ctx1: "agent_context h1 tr ev1 = (tr1, Inr (pre, ind))" and
    r1: "render_event h1 ev1 ts1 ind pre = Inr lines1"
    using format_event_lines_InrD [OF assms(4)] by blast
  have ctx2: "agent_context h2 tr1 ev2 = (tr1, Inr (pre, ind))"
    using agent_context_after_start [OF assms(1) _ assms(3) ctx1] assms(2) by simp
  have "render_agent_loop_started h1 ev1 ts1 ind pre = Inr lines1"
    using r1 assms(1) by (simp add: render_event_def)
  then obtain rest where
    l1: "lines1 = (ind @ HEADER (palette h1) @ ''['' @ ts1 @ ''] '' @ pre @ '' ''
                     @ BOLD (palette h1) @ ''Started'' @ ENDC (palette h1)) # rest"
    by (auto simp: render_agent_loop_started_def Let_def split: sum.splits)
  have "format_event_lines h2 tr1 ev2 =
          (tr1, render_agent_loop_step_started h2 ev2 ts2 ind pre)"
    using assms(2) by (simp add: format_event_lines_def assms(5) ctx2 render_event_def)
  then show ?thesis
    using ctx1 ctx2 l1 by (simp add: render_agent_loop_step_started_def Let_def)
qed

theorem started_then_step_same_context_witness:
  "format_event_lines sample_host init_tracker
      [(''type'', PStr ''agent_loop_started''), (''timestamp'', PInt 0), (''agentId'', PStr ''A'')]
   = (\<lparr> agents = [(KStr ''A'', \<lparr> parentId = PNone, startTime = 1700000000, depth = 0 \<rparr>)],
        parent_children = [] \<rparr>,
      Inr [esc # ''[95m[12:00:00] [Agent #1] '' @ esc # ''[1mStarted'' @ esc # ''[0m'',
           ''  Model: '' @ esc # ''[96mNone'' @ esc # ''[0m'',
           ''  Provider: None'', ''  Max steps: None'', ''  Max duration: 0ms''])
   \<and> format_event_lines sample_host
       \<lparr> agents = [(KStr ''A'', \<lparr> parentId = PNone, startTime = 1700000000, depth = 0 \<rparr>)],
         parent_children = [] \<rparr>
       [(''type'', PStr ''agent_loop_step_started''), (''timestamp'', PInt 0),
        (''agentId'', PStr ''A'')]
   = (\<lparr> agents = [(KStr ''A'', \<lparr> parentId = PNone, startTime = 1700000000, depth = 0 \<rparr>)],
        parent_children = [] \<rparr>,
      Inr [esc # ''[94m[12:00:00] [Agent #1] Step '' @ esc # ''[1m0/0'' @ esc # ''[0m (0%)''])"
  using started_then_step_same_context
    [of "[(''type'', PStr ''agent_loop_started''), (''timestamp'', PInt 0), (''agentId'', PStr ''A'')]"
        "[(''type'', PStr ''agent_loop_step_started''), (''timestamp'', PInt 0),
          (''agentId'', PStr ''A'')]"
        sample_host init_tracker
        "\<lparr> agents = [(KStr ''A'', \<lparr> parentId = PNone, startTime = 1700000000, depth = 0 \<rparr>)],
           parent_children = [] \<rparr>"
        "[esc # ''[95m[12:00:00] [Agent #1] '' @ esc # ''[1mStarted'' @ esc # ''[0m'',
           ''  Model: '' @ esc # ''[96mNone'' @ esc # ''[0m'',
           ''  Provider: None'', ''  Max steps: None'', ''  Max duration: 0ms'']"
        sample_host "''12:00:00''"]
    lines1_eval
  apply (simp add: get_or_simps format_timestamp_zero)
  apply (elim exE conjE)
  apply (simp add: agent_context_def get_or_simps
        start_agent_def init_tracker_def lookup_context_def get_agent_prefix_def get_indent_def
        get_agent_num_def sorted_agents_def show_int_def show_dec_digit digit_chars py_str_def)
  apply (simp add: sample_host_def ansi_colors_def)
  done

section \<open>The tracker along a run\<close>

lemma start_agent_InrD:
  assumes "start_agent now tr a p = Inr tr'"
  shows "\<exists>k. hash_key a = Inr k
           \<and> agents tr' =
               AList.update k
                 \<lparr> parentId = p, startTime = now,
                   depth = (case parent_record tr p of Some q \<Rightarrow> depth q + 1 | None \<Rightarrow> 0) \<rparr>
                 (agents tr)"
  using assms
  by (auto simp: start_agent_def parent_record_def split: sum.splits if_splits option.splits)

lemma apply_call_cases:
  "apply_call tr c = tr
   \<or> (\<exists>now a p k. start_agent now tr a p = Inr (apply_call tr c) \<and> hash_key a = Inr k
         \<and> registers k c)"
proof (cases c)
  case (Start now a p)
  then show ?thesis
    by (auto simp: dest: start_agent_InrD split: sum.splits)
next
  case (Render h ev)
  show ?thesis
  proof (cases "get_or ev ''type'' (PStr ''unknown'') = PStr ''agent_loop_started''
                \<and> truthy (get_or ev ''agentId'' PNone)")
    case False
    then have "fst (agent_context h tr ev) = tr"
      by (auto simp: agent_context_unchanged)
    then show ?thesis
      using format_event_lines_fst [of h tr ev] Render by (auto simp: format_event_fst)
  next
    case True
    show ?thesis
    proof (cases "start_agent (clock_start h) tr (get_or ev ''agentId'' PNone)
                    (get_or ev ''parentAgentId'' PNone)")
      case (Inl err)
      then have "fst (agent_context h tr ev) = tr"
        using True by (simp add: agent_context_def)
      then show ?thesis
        using format_event_lines_fst [of h tr ev] Render by (auto simp: format_event_fst)
    next
      case (Inr tr')
      then have "fst (agent_context h tr ev) = tr'"
        using True by (simp add: agent_context_def)
      then have "apply_call tr c = tr \<or> apply_call tr c = tr'"
        using format_event_lines_fst [of h tr ev] Render by (auto simp: format_event_fst)
      then show ?thesis
        using Inr True Render start_agent_InrD [OF Inr] by auto
    qed
  qed
qed

lemma apply_call_other_key:
  assumes "\<not> registers k c"
  shows "map_of (agents (apply_call tr c)) k = map_of (agents tr) k"
  using apply_call_cases [of tr c]
proof
  assume "apply_call tr c = tr"
  then show ?thesis by simp
next
  assume "\<exists>now a p k. start_agent now tr a p = Inr (apply_call tr c) \<and> hash_key a = Inr k
            \<and> registers k c"
  then obtain now a p k' where
    s: "start_agent now tr a p = Inr (apply_call tr c)" and "hash_key a = Inr k'" and "registers k' c"
    by blast
  then have "k' \<noteq> k" using assms by auto
  then show ?thesis
    using start_agent_InrD [OF s] \<open>hash_key a = Inr k'\<close> by (auto simp: update_conv')
qed

lemma run_other_key:
  assumes "\<forall>c \<in> set calls. \<not> registers k c"
  shows "map_of (agents (run tr calls)) k = map_of (agents tr) k"
  using assms
  by (induction calls arbitrary: tr) (simp_all add: run_def apply_call_other_key)



lemma set_update_subset: "set (AList.update k v al) \<subseteq> insert (k, v) (set al)"
  by (induction al) auto

lemma apply_call_depth_nonneg:
  assumes "\<forall>kv \<in> set (agents tr). 0 \<le> depth (snd kv)"
  shows "\<forall>kv \<in> set (agents (apply_call tr c)). 0 \<le> depth (snd kv)"
  using apply_call_cases [of tr c]
proof
  assume "apply_call tr c = tr"
  then show ?thesis using assms by simp
next
  assume "\<exists>now a p k. start_agent now tr a p = Inr (apply_call tr c) \<and> hash_key a = Inr k
            \<and> registers k c"
  then obtain now a p where s: "start_agent now tr a p = Inr (apply_call tr c)"
    by blast
  obtain k where
    ags: "agents (apply_call tr c) =
            AList.update k
              \<lparr> parentId = p, startTime = now,
                depth = (case parent_record tr p of Some q \<Rightarrow> depth q + 1 | None \<Rightarrow> 0) \<rparr>
              (agents tr)"
    using start_agent_InrD [OF s] by blast
  have "0 \<le> (case parent_record tr p of Some q \<Rightarrow> depth q + 1 | None \<Rightarrow> 0)"
  proof (cases "parent_record tr p")
    case None
    then show ?thesis by simp
  next
    case (Some q)
    then obtain pk where "map_of (agents tr) pk = Some q"
      by (auto simp: parent_record_def split: if_splits sum.splits)
    then have "(pk, q) \<in> set (agents tr)" by (rule map_of_SomeD)
    then have "0 \<le> depth q" using assms by force
    then show ?thesis using Some by simp
  qed
  then show ?thesis
    using assms set_update_subset [of k _ "agents tr"] unfolding ags by fastforce
qed

lemma run_depth_nonneg:
  "\<forall>kv \<in> set (agents (run init_tracker calls)). 0 \<le> depth (snd kv)"
proof -
  have "(\<forall>kv \<in> set (agents tr). 0 \<le> depth (snd kv))
        \<Longrightarrow> (\<forall>kv \<in> set (agents (run tr calls)). 0 \<le> depth (snd kv))" for tr
  proof (induction calls arbitrary: tr)
    case Nil
    then show ?case by (simp add: run_def)
  next
    case (Cons c calls)
    from Cons.IH [OF apply_call_depth_nonneg [OF Cons.prems, of c]]
    show ?case by (simp add: run_def)
  qed
  from this [of init_tracker] show ?thesis by (simp add: init_tracker_def)
qed

section \<open>Indentation\<close>

lemma replicate_two_spaces: "concat (replicate n ''  '') = replicate (2 * n) CHR '' ''"
  by (induction n) simp_all

text \<open>
  Claim C4.  In every tracker that a run of calls produces from the empty one,
  \<^verbatim>\<open>get_indent\<close> returns, for every hashable id, a string of spaces only whose length
  is exactly twice the stored depth of the agent, and the empty string for an id that is
  not registered.
\<close>

theorem indent_two_spaces_per_level:
  assumes "hash_key agent_id = Inr k"
  shows "\<exists>s. get_indent (run init_tracker calls) agent_id = Inr s
           \<and> set s \<subseteq> {CHR '' ''}
           \<and> int (length s) =
               2 * (case map_of (agents (run init_tracker calls)) k of
                      None \<Rightarrow> 0 | Some r \<Rightarrow> depth r)"
proof (cases "map_of (agents (run init_tracker calls)) k")
  case None
  then show ?thesis using assms by (simp add: get_indent_def)
next
  case (Some r)
  then have "(k, r) \<in> set (agents (run init_tracker calls))" by (rule map_of_SomeD)
  then have "0 \<le> depth r" using run_depth_nonneg [of calls] by force
  then show ?thesis
    using assms Some by (auto simp: get_indent_def replicate_two_spaces)
qed

theorem indent_two_spaces_per_level_witness:
  "get_indent
      (run init_tracker [Start 1 (PStr ''A'') PNone, Start 2 (PStr ''B'') (PStr ''A'')])
      (PStr ''B'') = Inr ''  ''
   \<and> get_indent
      (run init_tracker [Start 1 (PStr ''A'') PNone, Start 2 (PStr ''B'') (PStr ''A'')])
      (PStr ''A'') = Inr []
   \<and> get_indent
      (run init_tracker [Start 1 (PStr ''A'') PNone, Start 2 (PStr ''B'') (PStr ''A'')])
      (PStr ''C'') = Inr []"
  using indent_two_spaces_per_level
    [of "PStr ''B''" "KStr ''B''" "[Start 1 (PStr ''A'') PNone, Start 2 (PStr ''B'') (PStr ''A'')]"]
  by (simp add: run_def start_agent_def init_tracker_def add_child_def get_indent_def)

section \<open>What a registration stores stays\<close>



text \<open>
  Claim C9, as stated, fails: a second \<^verbatim>\<open>start_agent\<close> for the same id stores the clock
  reading of the second call.
\<close>

theorem start_time_overwritten_counterexample:
  "map_option startTime
     (map_of (agents (run init_tracker [Start 1 (PStr ''A'') PNone])) (KStr ''A'')) = Some 1
   \<and> map_option startTime
     (map_of (agents (run init_tracker [Start 1 (PStr ''A'') PNone, Start 2 (PStr ''A'') PNone]))
        (KStr ''A'')) = Some 2"
  by (simp add: run_def start_agent_def init_tracker_def)

text \<open>
  Claim C9, amended.  Every \<^verbatim>\<open>start_agent\<close> for an id stores the clock reading of that
  call as the \<^verbatim>\<open>startTime\<close> of the id (a repeated call overwrites the earlier value),
  and no later call that registers another id and no rendering changes it.
\<close>

theorem start_time_set_by_each_registration:
  assumes "start_agent now tr agent_id parent_id = Inr tr1"
      and "hash_key agent_id = Inr k"
  shows "map_option startTime (map_of (agents tr1) k) = Some now
       \<and> (\<forall>calls. (\<forall>c \<in> set calls. \<not> registers k c)
            \<longrightarrow> map_option startTime (map_of (agents (run tr1 calls)) k) = Some now)"
  using start_agent_InrD [OF assms(1)] assms(2) run_other_key [of _ k tr1]
  by (auto simp: update_conv')

theorem start_time_set_by_each_registration_witness:
  "map_option startTime
     (map_of (agents \<lparr> agents = [(KStr ''A'', \<lparr> parentId = PNone, startTime = 2, depth = 0 \<rparr>)],
                       parent_children = [] \<rparr>) (KStr ''A'')) = Some 2
   \<and> map_option startTime
     (map_of (agents (run \<lparr> agents = [(KStr ''A'', \<lparr> parentId = PNone, startTime = 2, depth = 0 \<rparr>)],
                            parent_children = [] \<rparr>
                          [Start 3 (PStr ''B'') (PStr ''A''),
                           Render sample_host [(''type'', PStr ''ready'')]]))
        (KStr ''A'')) = Some 2"
proof -
  have reg: "start_agent 2
               \<lparr> agents = [(KStr ''A'', \<lparr> parentId = PNone, startTime = 1, depth = 0 \<rparr>)],
                 parent_children = [] \<rparr> (PStr ''A'') PNone
             = Inr \<lparr> agents = [(KStr ''A'', \<lparr> parentId = PNone, startTime = 2, depth = 0 \<rparr>)],
                     parent_children = [] \<rparr>"
    by (simp add: start_agent_def)
  have others: "\<forall>c \<in> set [Start 3 (PStr ''B'') (PStr ''A''),
                           Render sample_host [(''type'', PStr ''ready'')]].
                  \<not> registers (KStr ''A'') c"
    by (simp add: get_or_simps)
  from start_time_set_by_each_registration [OF reg, of "KStr ''A''"] others
  show ?thesis by auto
qed

section \<open>Ordinals and the prefix\<close>











section \<open>Durations\<close>

subsection \<open>Rounding to the nearest integer\<close>

lemma rhe_bounds:
  assumes "0 < b"
  shows "\<bar>2 * (b * round_half_even_div a b - a)\<bar> \<le> b"
proof -
  have a: "a = b * (a div b) + a mod b" by simp
  have r: "0 \<le> a mod b" "a mod b < b" using assms by simp_all
  have up: "b * (a div b + 1) - a = b - a mod b"
    using a by (metis add_diff_cancel_left' diff_diff_eq2 diff_add_cancel distrib_left mult.right_neutral add.commute)
  have down: "b * (a div b) - a = - (a mod b)"
    using a by linarith
  show ?thesis
    unfolding round_half_even_div_def Let_def
    using r up down by (auto split: if_splits)
qed

lemma rhe_ge_div:
  assumes "0 < b"
  shows "a div b \<le> round_half_even_div a b"
  by (simp add: round_half_even_div_def Let_def)

lemma rhe_nonneg:
  assumes "0 < b" and "0 \<le> a"
  shows "0 \<le> round_half_even_div a b"
proof -
  have "0 \<le> a div b" using assms by (simp add: pos_imp_zdiv_nonneg_iff)
  then show ?thesis using rhe_ge_div [OF assms(1), of a] by linarith
qed

lemma rhe_ge_even:
  assumes "0 < b" and "even N" and "(2 * N - 1) * b \<le> 2 * a"
  shows "N \<le> round_half_even_div a b"
proof (cases "N \<le> a div b")
  case True
  then show ?thesis using rhe_ge_div [OF assms(1), of a] by linarith
next
  case False
  define q where "q = a div b"
  define r where "r = a mod b"
  have a: "a = b * q + r" by (simp add: q_def r_def)
  have r: "0 \<le> r" "r < b" using assms by (simp_all add: r_def)
  have le: "q \<le> N - 1" using False by (simp add: q_def)
  have h1: "2 * (N * b) - b \<le> 2 * a" using assms(3) by (simp add: algebra_simps)
  have h2: "a < q * b + b" using a r by (simp add: algebra_simps)
  have "2 * (N * b) < 2 * (q * b) + 3 * b" using h1 h2 by linarith
  then have "(2 * N) * b < (2 * q + 3) * b" by (simp add: algebra_simps)
  then have "2 * N < 2 * q + 3"
    using assms(1) by (simp only: mult_less_cancel_right_pos)
  then have q: "q = N - 1" using le by linarith
  have "a = (N - 1) * b + r" using a q by (simp add: algebra_simps)
  then have "2 * a = 2 * (N * b) - 2 * b + 2 * r" by (simp add: algebra_simps)
  then have "b \<le> 2 * r" using h1 by linarith
  moreover have "odd q" using q assms(2) by simp
  ultimately show ?thesis
    unfolding round_half_even_div_def Let_def q_def [symmetric] r_def [symmetric]
    using q by auto
qed

subsection \<open>The nearest double of a quotient\<close>

lemma ilog2_frac_bounds:
  assumes "0 < b" and "b \<le> a"
  shows "0 \<le> ilog2_frac a b
       \<and> b * 2 ^ nat (ilog2_frac a b) \<le> a
       \<and> a < b * 2 ^ nat (ilog2_frac a b + 1)"
proof -
  have apos: "0 < a" using assms by linarith
  define la where "la = nat (bitlen a)"
  define lb where "lb = nat (bitlen b)"
  have la: "bitlen a = int la" and lb: "bitlen b = int lb"
    by (simp_all add: la_def lb_def bitlen_nonneg)
  have la1: "1 \<le> la" and lb1: "1 \<le> lb"
    using bitlen_eq_zero_iff [of a] bitlen_eq_zero_iff [of b] apos assms(1) la lb
    by (auto simp: Suc_le_eq)
  have ba: "2 ^ (la - 1) \<le> a" "a < 2 ^ la"
    using bitlen_bounds [OF apos] la1 by (simp_all add: la nat_diff_distrib')
  have bb: "2 ^ (lb - 1) \<le> b" "b < 2 ^ lb"
    using bitlen_bounds [OF assms(1)] lb1 by (simp_all add: lb nat_diff_distrib')
  have "lb \<le> la"
  proof (rule ccontr)
    assume "\<not> lb \<le> la"
    then have "la \<le> lb - 1" by simp
    then have "(2::int) ^ la \<le> 2 ^ (lb - 1)" by (simp add: power_increasing)
    then show False using ba bb assms(2) by linarith
  qed
  define d where "d = la - lb"
  have dd: "bitlen a - bitlen b = int d" using \<open>lb \<le> la\<close> by (simp add: la lb d_def)
  have la_eq: "la = lb + d" using \<open>lb \<le> la\<close> by (simp add: d_def)
  show ?thesis
  proof (cases "b * 2 ^ d \<le> a")
    case True
    then have t: "ilog2_frac a b = int d"
      by (simp add: ilog2_frac_def dd pow2_le_frac_def)
    obtain lb' where lb': "lb = Suc lb'" using lb1 by (cases lb) auto
    have "(2::int) ^ la = 2 ^ (lb - 1) * 2 ^ (d + 1)"
      by (simp add: la_eq lb' power_add)
    also have "\<dots> \<le> b * 2 ^ (d + 1)"
      using bb(1) by (simp add: mult_right_mono)
    finally have "a < b * 2 ^ (d + 1)" using ba(2) by linarith
    then show ?thesis using True by (simp add: t nat_add_distrib)
  next
    case False
    then have t: "ilog2_frac a b = int d - 1"
      by (simp add: ilog2_frac_def dd pow2_le_frac_def)
    have "d \<noteq> 0" using False assms(2) by (auto intro: ccontr)
    then have d1: "1 \<le> d" by simp
    have "b * 2 ^ (d - 1) \<le> 2 ^ lb * 2 ^ (d - 1)"
      using bb(2) by (simp add: mult_right_mono)
    also have "\<dots> = (2::int) ^ (la - 1)"
    proof -
      obtain d' where "d = Suc d'" using d1 by (cases d) auto
      then show ?thesis by (simp add: la_eq power_add)
    qed
    finally have low: "b * 2 ^ (d - 1) \<le> a" using ba(1) by linarith
    have n1: "nat (int d - 1) = d - 1" using d1 by simp
    have n2: "nat (int d - 1 + 1) = d" by simp
    show ?thesis using False low d1 by (simp add: t n1)
  qed
qed

lemma pow_1024: "(2::int) ^ 1024 = 18014398509481984 * 2 ^ 970"
  by simp

lemma pow_971: "(2::int) ^ 971 = 2 * 2 ^ 970"
  by simp

lemma pow_1023: "(2::int) ^ 1023 = 9007199254740992 * 2 ^ 970"
  by simp

text \<open>The rounded mantissa overflows exactly from the midpoint above the largest double.\<close>

lemma mantissa_overflow_iff:
  fixes M :: int
  assumes b: "0 < b" and M: "M = 2 ^ 970" and P: "P = 2 ^ E" and T: "T = E + 52"
      and low: "b * 2 ^ T \<le> a" and up: "a < b * 2 ^ (T + 1)"
      and m: "m = round_half_even_div a (b * P)"
  shows "m * P < 18014398509481984 * M \<longleftrightarrow> a < b * (18014398509481983 * M)"
proof -
  have one: "(1::int) < 2" by simp
  have Mpos: "0 < M" by (simp add: M)
  have Ppos: "0 < P" by (simp add: P)
  have bP: "0 < b * P" using b Ppos by simp
  have rb: "\<bar>2 * (b * P * m - a)\<bar> \<le> b * P"
    unfolding m by (rule rhe_bounds [OF bP])
  have PT: "(2::int) ^ T = 4503599627370496 * P"
    by (simp add: T P power_add)
  show ?thesis
  proof (cases "a < b * (18014398509481983 * M)")
    case True
    have "b * (18014398509481983 * M) \<le> b * (18014398509481984 * M)"
      using b Mpos by simp
    then have "b * 2 ^ T < b * (18014398509481984 * M)" using low True by linarith
    then have "(2::int) ^ T < 18014398509481984 * M"
      using b by (simp only: mult_less_cancel_left_pos)
    then have "(2::int) ^ T < 2 ^ 1024" by (simp only: M pow_1024)
    then have "T < 1024" by (rule power_less_imp_less_exp [OF one])
    then have "E \<le> 971" using T by simp
    then have "P \<le> 2 ^ 971" unfolding P by (intro power_increasing) simp_all
    then have P2M: "P \<le> 2 * M" by (simp only: M pow_971)
    define X where "X = b * P * m"
    define Y where "Y = b * P"
    have "\<bar>2 * (X - a)\<bar> \<le> Y" using rb by (simp only: X_def Y_def)
    then have "2 * (X - a) \<le> Y" by (simp only: abs_le_iff)
    then have "2 * X \<le> 2 * a + Y" by simp
    also have "\<dots> < 2 * (b * (18014398509481983 * M)) + Y"
      using True by linarith
    also have "\<dots> = b * (36028797018963966 * M + P)" by (simp add: Y_def algebra_simps)
    finally have "b * (2 * (m * P)) < b * (36028797018963966 * M + P)"
      by (simp add: X_def algebra_simps)
    then have "2 * (m * P) < 36028797018963966 * M + P"
      using b by (simp only: mult_less_cancel_left_pos)
    then have "m * P < 18014398509481984 * M" using P2M by linarith
    then show ?thesis using True by simp
  next
    case big: False
    then have ge: "b * (18014398509481983 * M) \<le> a" by linarith
    have "b * (9007199254740992 * M) \<le> b * (18014398509481983 * M)"
      using b Mpos by simp
    then have "b * (9007199254740992 * M) < b * 2 ^ (T + 1)"
      using ge up by linarith
    then have "9007199254740992 * M < 2 ^ (T + 1)"
      using b by (simp only: mult_less_cancel_left_pos)
    then have "(2::int) ^ 1023 < 2 ^ (T + 1)" by (simp only: M pow_1023)
    then have "1023 < T + 1" by (rule power_less_imp_less_exp [OF one])
    then have T1023: "1023 \<le> T" by simp
    have "18014398509481984 * M \<le> m * P"
    proof (cases "T = 1023")
      case True
      then have E: "E = 971" using T by simp
      have PM: "P = 2 * M" by (simp only: P E M pow_971)
      have "(2 * 9007199254740992 - 1) * (b * P) \<le> 2 * a"
        using ge by (simp add: PM algebra_simps)
      then have "9007199254740992 \<le> m"
        unfolding m by (intro rhe_ge_even [OF bP]) simp_all
      then have "9007199254740992 * P \<le> m * P"
        using Ppos by (simp only: mult_right_mono less_imp_le)
      then show ?thesis unfolding PM by linarith
    next
      case False
      then have "1024 \<le> T" using T1023 by simp
      then have "(2::int) ^ 1024 \<le> 2 ^ T" by (intro power_increasing) simp_all
      then have big2: "18014398509481984 * M \<le> 4503599627370496 * P"
        by (simp only: M pow_1024 PT)
      define Y where "Y = b * P"
      have Ypos: "0 < Y" using bP by (simp add: Y_def)
      have "Y * 4503599627370496 \<le> a" using low by (simp add: PT Y_def algebra_simps)
      then have "(Y * 4503599627370496) div Y \<le> a div Y"
        using Ypos by (rule zdiv_mono1)
      moreover have "(Y * 4503599627370496) div Y = 4503599627370496"
        using Ypos by simp
      ultimately have "4503599627370496 \<le> a div (b * P)" by (simp add: Y_def)
      then have "4503599627370496 \<le> m"
        unfolding m using rhe_ge_div [OF bP, of a] by linarith
      then have "4503599627370496 * P \<le> m * P"
        using Ppos by (simp only: mult_right_mono less_imp_le)
      then show ?thesis using big2 by linarith
    qed
    then show ?thesis using big by simp
  qed
qed

lemma nearest_dbl_pos_cases:
  assumes "0 < b" and "b \<le> a"
  obtains (small) T where "T < 52" and "b * 2 ^ T \<le> a" and "a < b * 2 ^ (T + 1)"
      and "nearest_dbl_pos a b = (round_half_even_div (a * 2 ^ (52 - T)) b, int T - 52)"
  | (big) E where "b * 2 ^ (E + 52) \<le> a" and "a < b * 2 ^ (E + 52 + 1)"
      and "nearest_dbl_pos a b = (round_half_even_div a (b * 2 ^ E), int E)"
proof -
  define T where "T = nat (ilog2_frac a b)"
  have t0: "0 \<le> ilog2_frac a b" using ilog2_frac_bounds [OF assms] by simp
  then have t: "ilog2_frac a b = int T" by (simp add: T_def)
  have low: "b * 2 ^ T \<le> a" using ilog2_frac_bounds [OF assms] by (simp add: T_def)
  have "nat (ilog2_frac a b + 1) = T + 1" using t0 by (simp add: T_def nat_add_distrib)
  then have up: "a < b * 2 ^ (T + 1)" using ilog2_frac_bounds [OF assms] by simp
  show thesis
  proof (cases "T < 52")
    case True
    have "nat (52 - int T) = 52 - T" by simp
    then have "nearest_dbl_pos a b = (round_half_even_div (a * 2 ^ (52 - T)) b, int T - 52)"
      using True by (simp add: nearest_dbl_pos_def Let_def t)
    then show ?thesis using small [OF True low up] by simp
  next
    case False
    define E where "E = T - 52"
    have TE: "T = E + 52" using False by (simp add: E_def)
    have "nat (int T - 52) = E" by (simp add: E_def)
    then have "nearest_dbl_pos a b = (round_half_even_div a (b * 2 ^ E), int E)"
      using False by (simp add: nearest_dbl_pos_def Let_def t max_def E_def)
    then show ?thesis using big [of E] low up by (simp add: TE)
  qed
qed

lemma nearest_dbl_pos_finite_iff:
  assumes "0 < b" and "b \<le> a"
  shows "dbl_finite (nearest_dbl_pos a b) \<longleftrightarrow> a < b * (2 ^ 1024 - 2 ^ 970)"
proof -
  define M :: int where "M = 2 ^ 970"
  have Mpos: "0 < M" by (simp add: M_def)
  have bound: "(2::int) ^ 1024 - 2 ^ 970 = 18014398509481983 * M"
    unfolding M_def by simp
  have p1024: "(2::int) ^ 1024 = 18014398509481984 * M"
    unfolding M_def by simp
  from assms show ?thesis
  proof (cases rule: nearest_dbl_pos_cases)
    case (small T)
    then have "T + 1 \<le> 52" by simp
    then have "(2::int) ^ (T + 1) \<le> 2 ^ 52" by (intro power_increasing) simp_all
    then have "b * 2 ^ (T + 1) \<le> b * 2 ^ 52"
      by (rule mult_left_mono [OF _ less_imp_le [OF assms(1)]])
    moreover have "b * 2 ^ 52 \<le> b * (18014398509481983 * M)"
    proof -
      have "(1::int) \<le> M" using Mpos by linarith
      then have "(2::int) ^ 52 \<le> 18014398509481983 * M" by simp
      then show ?thesis by (rule mult_left_mono [OF _ less_imp_le [OF assms(1)]])
    qed
    ultimately have "a < b * (18014398509481983 * M)" using small(3) by linarith
    moreover have "dbl_finite (nearest_dbl_pos a b)"
      using small(1) by (simp add: small(4) dbl_finite_def)
    ultimately show ?thesis by (simp only: bound)
  next
    case (big E)
    define m where "m = round_half_even_div a (b * 2 ^ E)"
    have "0 \<le> a" using assms by linarith
    then have "0 \<le> m" unfolding m_def using assms(1) by (intro rhe_nonneg) simp_all
    then have "dbl_finite (nearest_dbl_pos a b) \<longleftrightarrow> m * 2 ^ E < 2 ^ 1024"
      by (simp only: big(3) dbl_finite_def m_def [symmetric] fst_conv snd_conv nat_int abs_of_nonneg)
         simp
    also have "\<dots> \<longleftrightarrow> m * 2 ^ E < 18014398509481984 * M" by (simp only: p1024)
    also have "\<dots> \<longleftrightarrow> a < b * (18014398509481983 * M)"
      by (rule mantissa_overflow_iff [OF assms(1) M_def refl refl big(1) big(2) m_def])
    finally show ?thesis by (simp only: bound)
  qed
qed

subsection \<open>One decimal of the nearest double\<close>

lemma double_rounding_core:
  fixes a b c m q P :: int
  assumes "0 < c" and "b = 10 * c" and "b < P"
      and "\<bar>2 * (b * m - a * P)\<bar> \<le> b" and "\<bar>2 * (P * q - 10 * m)\<bar> \<le> P"
  shows "\<bar>2 * (c * q - a)\<bar> \<le> c"
proof -
  define z where "z = c * q - a"
  define U where "U = P * q - 10 * m"
  define V where "V = b * m - a * P"
  have Ppos: "0 < P" using assms(1,2,3) by linarith
  have bpos: "0 \<le> b" using assms(1,2) by linarith
  have eq: "20 * (P * z) = b * (2 * U) + 10 * (2 * V)"
    by (simp add: z_def U_def V_def assms(2) algebra_simps)
  have "\<bar>b * (2 * U)\<bar> = b * \<bar>2 * U\<bar>" using bpos by (simp add: abs_mult)
  also have "\<dots> \<le> b * P"
    using assms(5) bpos unfolding U_def by (rule mult_left_mono)
  finally have u: "\<bar>b * (2 * U)\<bar> \<le> b * P" .
  have v: "\<bar>10 * (2 * V)\<bar> \<le> 10 * b"
    using assms(4) unfolding V_def by linarith
  have "\<bar>20 * (P * z)\<bar> \<le> b * P + 10 * b"
    unfolding eq using u v by linarith
  moreover have "\<bar>20 * (P * z)\<bar> = 20 * (P * \<bar>z\<bar>)"
    using Ppos by (simp add: abs_mult)
  moreover have "b * P = 10 * (c * P)" by (simp add: assms(2))
  ultimately have "20 * (P * \<bar>z\<bar>) \<le> 10 * (c * P) + 10 * b" by linarith
  then have "2 * (P * \<bar>z\<bar>) < c * P + P" using assms(3) by linarith
  then have "P * (2 * \<bar>z\<bar>) < P * (c + 1)" by (simp add: algebra_simps)
  then have "2 * \<bar>z\<bar> < c + 1" using Ppos by (simp only: mult_less_cancel_left_pos)
  then have "\<bar>2 * z\<bar> \<le> c" by linarith
  then show ?thesis by (simp only: z_def)
qed

lemma tenths_nonneg: "0 \<le> tenths d"
  by (simp add: tenths_def Let_def rhe_nonneg)

lemma nearest_dbl_pos_nonneg:
  assumes "0 < b" and "b \<le> a"
  shows "0 \<le> fst (nearest_dbl_pos a b)"
proof -
  have "0 \<le> a" using assms by linarith
  from assms show ?thesis
  proof (cases rule: nearest_dbl_pos_cases)
    case (small T)
    then show ?thesis using \<open>0 \<le> a\<close> assms(1) by (simp add: rhe_nonneg)
  next
    case (big E)
    then show ?thesis using \<open>0 \<le> a\<close> assms(1) by (simp add: rhe_nonneg)
  qed
qed

lemma tenths_nearest_accurate:
  assumes "0 < c" and "b = 10 * c" and "b \<le> a" and "a < b * 2 ^ 37" and "b < 2 ^ 16"
  shows "\<bar>2 * (c * tenths (nearest_dbl_pos a b) - a)\<bar> \<le> c"
proof -
  have bpos: "0 < b" using assms(1,2) by linarith
  have one: "(1::int) < 2" by simp
  from bpos assms(3) show ?thesis
  proof (cases rule: nearest_dbl_pos_cases)
    case (small T)
    define P :: int where "P = 2 ^ (52 - T)"
    define m where "m = round_half_even_div (a * P) b"
    have "b * 2 ^ T < b * 2 ^ 37" using small(2) assms(4) by linarith
    then have "(2::int) ^ T < 2 ^ 37" using bpos by (simp only: mult_less_cancel_left_pos)
    then have "T < 37" by (rule power_less_imp_less_exp [OF one])
    then have "16 \<le> 52 - T" by simp
    then have "(2::int) ^ 16 \<le> 2 ^ (52 - T)" by (intro power_increasing) simp_all
    then have bP: "b < P" using assms(5) unfolding P_def by linarith
    have mnn: "0 \<le> m"
      unfolding m_def using bpos assms(3) by (intro rhe_nonneg) (simp_all add: P_def)
    have nd: "nearest_dbl_pos a b = (m, int T - 52)" by (simp add: small(4) m_def P_def)
    have "nat (52 - int T) = 52 - T" by simp
    then have q: "tenths (nearest_dbl_pos a b) = round_half_even_div (10 * m) P"
      using small(1) mnn by (simp add: nd tenths_def Let_def P_def)
    have r1: "\<bar>2 * (b * m - a * P)\<bar> \<le> b"
      unfolding m_def by (rule rhe_bounds [OF bpos])
    have Ppos: "0 < P" by (simp add: P_def)
    have r2: "\<bar>2 * (P * tenths (nearest_dbl_pos a b) - 10 * m)\<bar> \<le> P"
      unfolding q by (rule rhe_bounds [OF Ppos])
    show ?thesis by (rule double_rounding_core [OF assms(1,2) bP r1 r2])
  next
    case (big E)
    have "b * 2 ^ (E + 52) < b * 2 ^ 37" using big(1) assms(4) by linarith
    then have "(2::int) ^ (E + 52) < 2 ^ 37" using bpos by (simp only: mult_less_cancel_left_pos)
    then have "E + 52 < 37" by (rule power_less_imp_less_exp [OF one])
    then show ?thesis by simp
  qed
qed

subsection \<open>The three branches of \<^verbatim>\<open>format_duration\<close>\<close>

lemma format_duration_PInt:
  "format_duration h (PInt ms) =
     (if ms < 1000 then Inr (show_int ms @ ''ms'')
      else if ms < 60000
        then (case py_truediv (PInt ms) 1000 of
                Inl err \<Rightarrow> Inl err | Inr d \<Rightarrow> Inr (fmt_1f d @ ''s''))
        else (case py_truediv (PInt ms) 60000 of
                Inl err \<Rightarrow> Inl err | Inr d \<Rightarrow> Inr (fmt_1f d @ ''m'')))"
  by (simp add: format_duration_def py_str_def)

lemma py_truediv_PInt:
  assumes "0 < n" and "n \<le> ms"
  shows "py_truediv (PInt ms) n =
           (if ms < n * (2 ^ 1024 - 2 ^ 970) then Inr (nearest_dbl ms n) else Inl OverflowError)"
proof -
  have "nearest_dbl ms n = nearest_dbl_pos ms n"
    using assms by (simp add: nearest_dbl_def)
  then show ?thesis
    by (simp only: py_truediv.simps Let_def nearest_dbl_pos_finite_iff [OF assms])
qed

lemma fmt_1f_nearest:
  assumes "0 < n" and "n \<le> ms"
  shows "fmt_1f (nearest_dbl ms n) =
           show_dec (tenths (nearest_dbl ms n) div 10) @ ''.''
           @ [digit_char (tenths (nearest_dbl ms n) mod 10)]"
proof -
  have "nearest_dbl ms n = nearest_dbl_pos ms n"
    using assms by (simp add: nearest_dbl_def)
  then show ?thesis
    using nearest_dbl_pos_nonneg [OF assms] by (simp add: fmt_1f_def Let_def)
qed

lemma format_duration_seconds:
  assumes "1000 \<le> ms" and "ms < 60000"
  shows "format_duration h (PInt ms) =
           Inr (show_dec (tenths (nearest_dbl ms 1000) div 10) @ ''.''
                @ [digit_char (tenths (nearest_dbl ms 1000) mod 10)] @ ''s'')
       \<and> \<bar>2 * (100 * tenths (nearest_dbl ms 1000) - ms)\<bar> \<le> 100"
proof -
  have "(60000::int) \<le> 1000 * (2 ^ 1024 - 2 ^ 970)" by simp
  then have "ms < 1000 * (2 ^ 1024 - 2 ^ 970)" using assms(2) by linarith
  then have "py_truediv (PInt ms) 1000 = Inr (nearest_dbl ms 1000)"
    using py_truediv_PInt [of 1000 ms] assms(1) by simp
  then have out: "format_duration h (PInt ms) = Inr (fmt_1f (nearest_dbl ms 1000) @ ''s'')"
    using assms by (simp add: format_duration_PInt)
  have "ms < 1000 * 2 ^ 37" using assms(2) by simp
  then have "\<bar>2 * (100 * tenths (nearest_dbl_pos ms 1000) - ms)\<bar> \<le> 100"
    using assms(1) by (intro tenths_nearest_accurate) simp_all
  moreover have "nearest_dbl ms 1000 = nearest_dbl_pos ms 1000"
    using assms by (simp add: nearest_dbl_def)
  ultimately show ?thesis
    using out fmt_1f_nearest [of 1000 ms] assms(1) by simp
qed

lemma format_duration_minutes:
  assumes "60000 \<le> ms" and "ms < 60000 * (2 ^ 1024 - 2 ^ 970)"
  shows "format_duration h (PInt ms) =
           Inr (show_dec (tenths (nearest_dbl ms 60000) div 10) @ ''.''
                @ [digit_char (tenths (nearest_dbl ms 60000) mod 10)] @ ''m'')
       \<and> (ms < 60000 * 2 ^ 37
            \<longrightarrow> \<bar>2 * (6000 * tenths (nearest_dbl ms 60000) - ms)\<bar> \<le> 6000)"
proof -
  have "py_truediv (PInt ms) 60000 = Inr (nearest_dbl ms 60000)"
    using py_truediv_PInt [of 60000 ms] assms by (simp only: if_True)
  then have out: "format_duration h (PInt ms) = Inr (fmt_1f (nearest_dbl ms 60000) @ ''m'')"
    using assms(1) by (simp add: format_duration_PInt)
  have eq: "nearest_dbl ms 60000 = nearest_dbl_pos ms 60000"
    using assms by (simp add: nearest_dbl_def)
  have "\<bar>2 * (6000 * tenths (nearest_dbl ms 60000) - ms)\<bar> \<le> 6000" if "ms < 60000 * 2 ^ 37"
    unfolding eq using assms(1) that by (intro tenths_nearest_accurate) simp_all
  then show ?thesis
    using out fmt_1f_nearest [of 60000 ms] assms(1) by simp
qed

lemma format_duration_overflow:
  assumes "60000 * (2 ^ 1024 - 2 ^ 970) \<le> ms"
  shows "format_duration h (PInt ms) = Inl OverflowError"
proof -
  have "(60000::int) \<le> 60000 * (2 ^ 1024 - 2 ^ 970)" by simp
  then have big: "60000 \<le> ms" using assms by linarith
  have "\<not> ms < 60000 * (2 ^ 1024 - 2 ^ 970)" using assms by linarith
  then have "py_truediv (PInt ms) 60000 = Inl OverflowError"
    using py_truediv_PInt [of 60000 ms] big by (simp only: if_False)
  then show ?thesis using big by (simp add: format_duration_PInt)
qed

subsection \<open>Durations that are non-negative ints\<close>

lemma format_duration_examples:
  "format_duration h (PInt 0) = Inr ''0ms''"
  "format_duration h (PInt 999) = Inr ''999ms''"
  "format_duration h (PInt 1000) = Inr ''1.0s''"
  "format_duration h (PInt 59999) = Inr ''60.0s''"
  "format_duration h (PInt 60000) = Inr ''1.0m''"
  "format_duration h (PInt 125000) = Inr ''2.1m''"
  by code_simp+

text \<open>
  Claim C2, as stated, fails: from 60000 times the midpoint between the largest double and
  \<open>2 ^ 1024\<close> on, the true division \<^verbatim>\<open>ms / 60000\<close> of two ints raises
  \<^verbatim>\<open>OverflowError\<close>, so \<^verbatim>\<open>format_duration\<close> returns no string.
\<close>

theorem format_duration_overflow_counterexample:
  "format_duration sample_host (PInt (60000 * 2 ^ 1024)) = Inl OverflowError"
  by (rule format_duration_overflow) simp

text \<open>
  Claim C2, amended.  For a non-negative int \<open>ms\<close>, \<^verbatim>\<open>format_duration\<close> returns
  \<^item> below 1000, the decimal digits of \<open>ms\<close> and \<^verbatim>\<open>ms\<close>;
  \<^item> from 1000 and below 60000, the tenths \<open>q\<close> of a second nearest to \<open>ms / 1000\<close>,
    written with exactly one decimal, and \<^verbatim>\<open>s\<close>;
  \<^item> from 60000 and below \<open>60000 * (2 ^ 1024 - 2 ^ 970)\<close>, the one-decimal rendering of
    the double nearest to \<open>ms / 60000\<close> and \<^verbatim>\<open>m\<close>, which below \<open>60000 * 2 ^ 37\<close> is the
    tenth of a minute nearest to \<open>ms / 60000\<close>;
  \<^item> from \<open>60000 * (2 ^ 1024 - 2 ^ 970)\<close> on, no string: \<^verbatim>\<open>OverflowError\<close> is raised;
  and the six examples of the claim hold.
\<close>

theorem format_duration_int:
  assumes "0 \<le> ms"
  shows "(ms < 1000 \<longrightarrow> format_duration h (PInt ms) = Inr (show_dec ms @ ''ms''))
       \<and> (1000 \<le> ms \<and> ms < 60000 \<longrightarrow>
            (\<exists>q. format_duration h (PInt ms) =
                    Inr (show_dec (q div 10) @ ''.'' @ [digit_char (q mod 10)] @ ''s'')
                 \<and> 0 \<le> q \<and> \<bar>2 * (100 * q - ms)\<bar> \<le> 100))
       \<and> (60000 \<le> ms \<and> ms < 60000 * (2 ^ 1024 - 2 ^ 970) \<longrightarrow>
            (\<exists>q. format_duration h (PInt ms) =
                    Inr (show_dec (q div 10) @ ''.'' @ [digit_char (q mod 10)] @ ''m'')
                 \<and> 0 \<le> q \<and> q = tenths (nearest_dbl ms 60000)
                 \<and> (ms < 60000 * 2 ^ 37 \<longrightarrow> \<bar>2 * (6000 * q - ms)\<bar> \<le> 6000)))
       \<and> (60000 * (2 ^ 1024 - 2 ^ 970) \<le> ms \<longrightarrow>
            format_duration h (PInt ms) = Inl OverflowError)
       \<and> format_duration h (PInt 0) = Inr ''0ms''
       \<and> format_duration h (PInt 999) = Inr ''999ms''
       \<and> format_duration h (PInt 1000) = Inr ''1.0s''
       \<and> format_duration h (PInt 59999) = Inr ''60.0s''
       \<and> format_duration h (PInt 60000) = Inr ''1.0m''
       \<and> format_duration h (PInt 125000) = Inr ''2.1m''"
proof -
  have c1: "ms < 1000 \<longrightarrow> format_duration h (PInt ms) = Inr (show_dec ms @ ''ms'')"
    using assms by (simp add: format_duration_PInt show_int_def)
  have c2: "1000 \<le> ms \<and> ms < 60000 \<longrightarrow>
            (\<exists>q. format_duration h (PInt ms) =
                    Inr (show_dec (q div 10) @ ''.'' @ [digit_char (q mod 10)] @ ''s'')
                 \<and> 0 \<le> q \<and> \<bar>2 * (100 * q - ms)\<bar> \<le> 100)"
    using format_duration_seconds [of ms h] tenths_nonneg [of "nearest_dbl ms 1000"] by blast
  have c3: "60000 \<le> ms \<and> ms < 60000 * (2 ^ 1024 - 2 ^ 970) \<longrightarrow>
            (\<exists>q. format_duration h (PInt ms) =
                    Inr (show_dec (q div 10) @ ''.'' @ [digit_char (q mod 10)] @ ''m'')
                 \<and> 0 \<le> q \<and> q = tenths (nearest_dbl ms 60000)
                 \<and> (ms < 60000 * 2 ^ 37 \<longrightarrow> \<bar>2 * (6000 * q - ms)\<bar> \<le> 6000))"
    using format_duration_minutes [of ms h] tenths_nonneg [of "nearest_dbl ms 60000"] by blast
  have c4: "60000 * (2 ^ 1024 - 2 ^ 970) \<le> ms \<longrightarrow>
            format_duration h (PInt ms) = Inl OverflowError"
    using format_duration_overflow [of ms h] by blast
  show ?thesis
    using c1 c2 c3 c4 format_duration_examples [of h] by blast
qed

theorem format_duration_int_witness:
  "(0::int) \<le> 125000 \<and> (60000::int) \<le> 125000
   \<and> (125000::int) < 60000 * (2 ^ 1024 - 2 ^ 970)
   \<and> tenths (nearest_dbl 125000 60000) = 21
   \<and> format_duration sample_host (PInt 125000) = Inr ''2.1m''
   \<and> \<bar>2 * (6000 * 21 - 125000)\<bar> \<le> (6000::int)"
proof -
  have t: "tenths (nearest_dbl 125000 60000) = 21" by code_simp
  have z: "(0::int) \<le> 125000" by simp
  have s: "(60000::int) \<le> 125000" by simp
  have r: "(125000::int) < 60000 * (2 ^ 1024 - 2 ^ 970)" by simp
  have "60000 \<le> (125000::int) \<and> (125000::int) < 60000 * (2 ^ 1024 - 2 ^ 970) \<longrightarrow>
            (\<exists>q. format_duration sample_host (PInt 125000) =
                    Inr (show_dec (q div 10) @ ''.'' @ [digit_char (q mod 10)] @ ''m'')
                 \<and> 0 \<le> q \<and> q = tenths (nearest_dbl 125000 60000)
                 \<and> ((125000::int) < 60000 * 2 ^ 37 \<longrightarrow> \<bar>2 * (6000 * q - 125000)\<bar> \<le> 6000))"
    using format_duration_int [OF z, of sample_host] by blast
  then obtain q where
    "format_duration sample_host (PInt 125000) =
       Inr (show_dec (q div 10) @ ''.'' @ [digit_char (q mod 10)] @ ''m'')"
    and "q = tenths (nearest_dbl 125000 60000)"
    using r s by blast
  then have "format_duration sample_host (PInt 125000) =
       Inr (show_dec (21 div 10) @ ''.'' @ [digit_char (21 mod 10)] @ ''m'')"
    by (simp only: t)
  then have "format_duration sample_host (PInt 125000) = Inr ''2.1m''"
    by (simp add: show_dec_digit digit_chars)
  then show ?thesis using t r by simp
qed

section \<open>Absent fields\<close>

subsection \<open>An absent field reads as its fallback\<close>



















subsection \<open>Well-typed events render\<close>









subsection \<open>Events with absent fields\<close>





end
